theory Spec2Isabelle
  imports Complex_Main "HOL-Library.Sublist"
begin

section \<open>Numbers and strings of the host language\<close>

text \<open>
  The program computes with IEEE doubles. They are modelled as the real numbers: every
  comparison below is between quantities that the program compares, and rounding error of
  the floating-point operations is not part of the model. The values NaN and Infinity do not
  exist in \<open>real\<close>; where the program starts a search at \<open>Infinity\<close> the model uses
  \<open>None\<close>, and the theorems about cents assume positive frequencies, where
  \<open>Math.log2\<close> is the real logarithm.
\<close>

text \<open>
  \<open>Math.round\<close>: the nearest integer, a tie going up. The result is an integer; where the
  program goes on computing with it as a number, the model converts it with \<open>of_int\<close>.
\<close>

definition js_round :: "real \<Rightarrow> int" where
  "js_round x = \<lfloor>x + 1 / 2\<rfloor>"

text \<open>An integer written in decimal, as a template literal prints it.\<close>

fun show_nat :: "nat \<Rightarrow> string" where
  "show_nat n = (if n < 10 then [''0123456789'' ! n]
                 else show_nat (n div 10) @ [''0123456789'' ! (n mod 10)])"

declare show_nat.simps [simp del]

definition show_int :: "int \<Rightarrow> string" where
  "show_int i = (if i < 0 then CHR ''-'' # show_nat (nat (- i)) else show_nat (nat i))"

text \<open>\<open>String.prototype.includes\<close>, here \<open>str_includes\<close>.\<close>

fun str_includes :: "string \<Rightarrow> string \<Rightarrow> bool" where
  "str_includes [] sub = (sub = [])"
| "str_includes (c # cs) sub = (prefix sub (c # cs) \<or> str_includes cs sub)"

text \<open>\<open>Array.prototype.join\<close>.\<close>

fun join :: "string \<Rightarrow> string list \<Rightarrow> string" where
  "join sep [] = []"
| "join sep [x] = x"
| "join sep (x # y # ys) = x @ sep @ join sep (y # ys)"


section \<open>Types and constants (src/types/index.ts)\<close>

definition A4_FREQUENCY :: real where
  "A4_FREQUENCY = 440"

definition A4_MIDI :: int where
  "A4_MIDI = 69"

record Note =
  name :: string
  octave :: int
  frequency :: real
  midiNumber :: int

text \<open>The field \<open>note\<close> of a guitar string is called \<open>gs_note\<close> here.\<close>

record GuitarString =
  stringNumber :: int
  gs_note :: Note

text \<open>The fields \<open>id\<close> and \<open>name\<close> of a preset are \<open>preset_id\<close> and \<open>preset_name\<close>.\<close>

record TuningPreset =
  preset_id :: string
  preset_name :: string
  description :: string
  strings :: "GuitarString list"

datatype TuningStatus = Flat | Sharp | InTune

text \<open>The field \<open>frequency\<close> of a pitch result is \<open>pr_frequency\<close>.\<close>

record PitchResult =
  pr_frequency :: "real option"
  noteName :: "string option"
  centsDeviation :: real
  closestString :: "int option"
  inTune :: bool
  tuningStatus :: TuningStatus
  advice :: string

text \<open>Times are milliseconds since the epoch, as \<open>Date.now()\<close> gives them.\<close>

record TuningSession =
  active :: bool
  tuningId :: string
  tuningName :: string
  startedAt :: int

definition IN_TUNE_THRESHOLD :: real where
  "IN_TUNE_THRESHOLD = 5"

definition GUITAR_FREQ_MIN :: real where
  "GUITAR_FREQ_MIN = 70"

definition GUITAR_FREQ_MAX :: real where
  "GUITAR_FREQ_MAX = 1500"


section \<open>The tuning catalog (tunings.ts)\<close>

definition midiToFrequency :: "int \<Rightarrow> real" where
  "midiToFrequency m = A4_FREQUENCY * 2 powr (of_int (m - A4_MIDI) / 12)"

text \<open>The helper \<open>note\<close> of the source.\<close>

definition make_note :: "string \<Rightarrow> int \<Rightarrow> int \<Rightarrow> Note" where
  "make_note nm oct m =
     \<lparr>name = nm, octave = oct,
      frequency = of_int (js_round (midiToFrequency m * 100)) / 100,
      midiNumber = m\<rparr>"

definition TUNING_PRESETS :: "TuningPreset list" where
  "TUNING_PRESETS =
    [\<lparr>preset_id = ''standard'', preset_name = ''Standard'',
      description = ''Standard tuning (E A D G B E)'',
      strings =
       [\<lparr>stringNumber = 6, gs_note = make_note ''E'' 2 40\<rparr>,
        \<lparr>stringNumber = 5, gs_note = make_note ''A'' 2 45\<rparr>,
        \<lparr>stringNumber = 4, gs_note = make_note ''D'' 3 50\<rparr>,
        \<lparr>stringNumber = 3, gs_note = make_note ''G'' 3 55\<rparr>,
        \<lparr>stringNumber = 2, gs_note = make_note ''B'' 3 59\<rparr>,
        \<lparr>stringNumber = 1, gs_note = make_note ''E'' 4 64\<rparr>]\<rparr>,
     \<lparr>preset_id = ''drop-d'', preset_name = ''Drop D'',
      description = ''Drop D tuning (D A D G B E) - 6th string lowered to D'',
      strings =
       [\<lparr>stringNumber = 6, gs_note = make_note ''D'' 2 38\<rparr>,
        \<lparr>stringNumber = 5, gs_note = make_note ''A'' 2 45\<rparr>,
        \<lparr>stringNumber = 4, gs_note = make_note ''D'' 3 50\<rparr>,
        \<lparr>stringNumber = 3, gs_note = make_note ''G'' 3 55\<rparr>,
        \<lparr>stringNumber = 2, gs_note = make_note ''B'' 3 59\<rparr>,
        \<lparr>stringNumber = 1, gs_note = make_note ''E'' 4 64\<rparr>]\<rparr>,
     \<lparr>preset_id = ''half-step-down'', preset_name = ''Half Step Down'',
      description = ''Eb tuning (Eb Ab Db Gb Bb Eb) - all strings down 1 semitone'',
      strings =
       [\<lparr>stringNumber = 6, gs_note = make_note ''Eb'' 2 39\<rparr>,
        \<lparr>stringNumber = 5, gs_note = make_note ''Ab'' 2 44\<rparr>,
        \<lparr>stringNumber = 4, gs_note = make_note ''Db'' 3 49\<rparr>,
        \<lparr>stringNumber = 3, gs_note = make_note ''Gb'' 3 54\<rparr>,
        \<lparr>stringNumber = 2, gs_note = make_note ''Bb'' 3 58\<rparr>,
        \<lparr>stringNumber = 1, gs_note = make_note ''Eb'' 4 63\<rparr>]\<rparr>,
     \<lparr>preset_id = ''open-g'', preset_name = ''Open G'',
      description = ''Open G tuning (D G D G B D) - strums a G major chord'',
      strings =
       [\<lparr>stringNumber = 6, gs_note = make_note ''D'' 2 38\<rparr>,
        \<lparr>stringNumber = 5, gs_note = make_note ''G'' 2 43\<rparr>,
        \<lparr>stringNumber = 4, gs_note = make_note ''D'' 3 50\<rparr>,
        \<lparr>stringNumber = 3, gs_note = make_note ''G'' 3 55\<rparr>,
        \<lparr>stringNumber = 2, gs_note = make_note ''B'' 3 59\<rparr>,
        \<lparr>stringNumber = 1, gs_note = make_note ''D'' 4 62\<rparr>]\<rparr>,
     \<lparr>preset_id = ''open-d'', preset_name = ''Open D'',
      description = ''Open D tuning (D A D F# A D) - strums a D major chord'',
      strings =
       [\<lparr>stringNumber = 6, gs_note = make_note ''D'' 2 38\<rparr>,
        \<lparr>stringNumber = 5, gs_note = make_note ''A'' 2 45\<rparr>,
        \<lparr>stringNumber = 4, gs_note = make_note ''D'' 3 50\<rparr>,
        \<lparr>stringNumber = 3, gs_note = make_note ''F#'' 3 54\<rparr>,
        \<lparr>stringNumber = 2, gs_note = make_note ''A'' 3 57\<rparr>,
        \<lparr>stringNumber = 1, gs_note = make_note ''D'' 4 62\<rparr>]\<rparr>,
     \<lparr>preset_id = ''dadgad'', preset_name = ''DADGAD'',
      description = ''DADGAD tuning (D A D G A D) - popular for Celtic music'',
      strings =
       [\<lparr>stringNumber = 6, gs_note = make_note ''D'' 2 38\<rparr>,
        \<lparr>stringNumber = 5, gs_note = make_note ''A'' 2 45\<rparr>,
        \<lparr>stringNumber = 4, gs_note = make_note ''D'' 3 50\<rparr>,
        \<lparr>stringNumber = 3, gs_note = make_note ''G'' 3 55\<rparr>,
        \<lparr>stringNumber = 2, gs_note = make_note ''A'' 3 57\<rparr>,
        \<lparr>stringNumber = 1, gs_note = make_note ''D'' 4 62\<rparr>]\<rparr>]"

definition getTuningById :: "string \<Rightarrow> TuningPreset option" where
  "getTuningById i = find (\<lambda>t. preset_id t = i) TUNING_PRESETS"

definition getTuningIds :: "string list" where
  "getTuningIds = map preset_id TUNING_PRESETS"

text \<open>A preset is well formed when it has six strings at the positions 1 to 6.\<close>

definition six_strings :: "TuningPreset \<Rightarrow> bool" where
  "six_strings t \<longleftrightarrow>
     length (strings t) = 6 \<and> distinct (map stringNumber (strings t)) \<and>
     set (map stringNumber (strings t)) = {1, 2, 3, 4, 5, 6}"


section \<open>Mapping a frequency to a string (note-mapper.ts)\<close>

definition calculateCents :: "real \<Rightarrow> real \<Rightarrow> real" where
  "calculateCents detectedFreq targetFreq = 1200 * log 2 (detectedFreq / targetFreq)"

text \<open>The text \<open>${note.name}${note.octave}\<close> that names a string's note.\<close>

definition note_label :: "Note \<Rightarrow> string" where
  "note_label n = name n @ show_int (octave n)"

text \<open>
  The loop of \<open>findClosestString\<close> over the strings of the tuning. Its three variables
  are \<open>closestString\<close>, \<open>smallestCentsDiff\<close> (\<open>None\<close> is the initial \<open>Infinity\<close>)
  and \<open>closestNoteName\<close>.
\<close>

fun closest_loop ::
  "real \<Rightarrow> GuitarString list \<Rightarrow> int option \<times> real option \<times> string
     \<Rightarrow> int option \<times> real option \<times> string" where
  "closest_loop f [] vars = vars"
| "closest_loop f (g # gs) (closest, smallest, nm) =
     (let cents = calculateCents f (frequency (gs_note g));
          absCents = \<bar>cents\<bar>
      in if (case smallest of None \<Rightarrow> True | Some d \<Rightarrow> absCents < d) \<and> absCents \<le> 100
         then closest_loop f gs (Some (stringNumber g), Some absCents, note_label (gs_note g))
         else closest_loop f gs (closest, smallest, nm))"

text \<open>The object \<open>findClosestString\<close> returns.\<close>

record ClosestString =
  cs_stringNumber :: int
  centsOff :: real
  cs_noteName :: string

text \<open>
  \<open>targetString\<close> is looked up again by its number; the source asserts with \<open>!\<close> that
  the lookup succeeds, which \<open>closest_found\<close> below proves.
\<close>

definition findClosestString :: "real \<Rightarrow> TuningPreset \<Rightarrow> ClosestString option" where
  "findClosestString f tuning =
     (if f < GUITAR_FREQ_MIN \<or> f > GUITAR_FREQ_MAX then None
      else case closest_loop f (strings tuning) (None, None, []) of
        (None, _, _) \<Rightarrow> None
      | (Some closest, _, nm) \<Rightarrow>
          (let targetString = the (find (\<lambda>s. stringNumber s = closest) (strings tuning));
               actualCents = calculateCents f (frequency (gs_note targetString))
           in Some \<lparr>cs_stringNumber = closest,
                    centsOff = of_int (js_round (actualCents * 10)) / 10,
                    cs_noteName = nm\<rparr>))"

definition getTuningStatus :: "real \<Rightarrow> TuningStatus" where
  "getTuningStatus cents =
     (if \<bar>cents\<bar> \<le> IN_TUNE_THRESHOLD then InTune
      else if cents < 0 then Flat else Sharp)"

definition generateAdvice ::
  "TuningStatus \<Rightarrow> real \<Rightarrow> int option \<Rightarrow> string option \<Rightarrow> string" where
  "generateAdvice status cents stringNo noteNm =
     (case (stringNo, noteNm) of
        (Some n, Some nm) \<Rightarrow>
          (let stringLabel = ''String '' @ show_int n @ '' ('' @ nm @ '')'';
               centsAbs = \<bar>js_round cents\<bar>
           in case status of
                InTune \<Rightarrow> stringLabel @ '' is in tune!''
              | Flat \<Rightarrow> stringLabel @ '' is '' @ show_int centsAbs
                         @ '' cents flat. Tune UP (tighten).''
              | Sharp \<Rightarrow> stringLabel @ '' is '' @ show_int centsAbs
                         @ '' cents sharp. Tune DOWN (loosen).'')
      | _ \<Rightarrow> ''No pitch detected. Play a string and hold the note.'')"

definition createPitchResult :: "real option \<Rightarrow> TuningPreset \<Rightarrow> PitchResult" where
  "createPitchResult freq tuning =
     (case freq of
        None \<Rightarrow>
          \<lparr>pr_frequency = None, noteName = None, centsDeviation = 0, closestString = None,
           inTune = False, tuningStatus = Flat,
           advice = ''No pitch detected. Play a string and hold the note.''\<rparr>
      | Some f \<Rightarrow>
          (case findClosestString f tuning of
             None \<Rightarrow>
               \<lparr>pr_frequency = Some (of_int (js_round (f * 10)) / 10), noteName = None,
                centsDeviation = 0, closestString = None,
                inTune = False, tuningStatus = Flat,
                advice = ''Detected '' @ show_int (js_round f)
                           @ '' Hz - not close to any target string.''\<rparr>
           | Some closest \<Rightarrow>
               (let status = getTuningStatus (centsOff closest);
                    inT = (status = InTune)
                in \<lparr>pr_frequency = Some (of_int (js_round (f * 10)) / 10),
                     noteName = Some (cs_noteName closest),
                     centsDeviation = centsOff closest,
                     closestString = Some (cs_stringNumber closest),
                     inTune = inT, tuningStatus = status,
                     advice = generateAdvice status (centsOff closest)
                                (Some (cs_stringNumber closest)) (Some (cs_noteName closest))\<rparr>)))"


text \<open>
  For the proofs: the absolute cents between a frequency and a string's target, and what
  the loop's variables hold after the strings in \<open>S\<close>: either no string of \<open>S\<close> is within
  100 cents and nothing is chosen, or the chosen string is within 100 cents and no string
  of \<open>S\<close> is nearer.
\<close>

definition abs_cents :: "real \<Rightarrow> GuitarString \<Rightarrow> real" where
  "abs_cents f g = \<bar>calculateCents f (frequency (gs_note g))\<bar>"

definition vars_ok ::
  "real \<Rightarrow> GuitarString set \<Rightarrow> int option \<times> real option \<times> string \<Rightarrow> bool" where
  "vars_ok f S v \<longleftrightarrow>
     (fst v = None \<and> fst (snd v) = None \<and> (\<forall>g\<in>S. 100 < abs_cents f g))
   \<or> (\<exists>g\<in>S. v = (Some (stringNumber g), Some (abs_cents f g), note_label (gs_note g))
          \<and> abs_cents f g \<le> 100 \<and> (\<forall>g'\<in>S. abs_cents f g \<le> abs_cents f g'))"

text \<open>The preset the tests call \<open>standardTuning\<close>.\<close>

definition standardTuning :: TuningPreset where
  "standardTuning = the (getTuningById ''standard'')"


text \<open>The frequency the octave-correction test calls \<open>halfE4\<close>.\<close>

definition halfE4 :: real where
  "halfE4 = 329.63 / 2"


text \<open>The frequencies the tests call \<open>sharpA\<close> and \<open>flatA\<close>: 20 cents above and below A2.\<close>

definition sharpA :: real where
  "sharpA = 110 * 2 powr (20 / 1200)"

definition flatA :: real where
  "flatA = 110 * 2 powr (- 20 / 1200)"


section \<open>The pitch estimator (pitch-detector.ts)\<close>

datatype error = NotInitialized

text \<open>
  The detection algorithm comes from the library \<open>pitchfinder\<close>; it is a parameter of the
  model: a function from a window of samples to a frequency or nothing. The field
  \<open>detectPitch\<close> is \<open>None\<close> until \<open>initialize\<close> has run.
\<close>

record PitchDetectorProcessor =
  detectPitch :: "(real list \<Rightarrow> real option) option"
  sampleRate :: nat
  accumulatedSamples :: "real list"
  bufferSize :: nat
  rmsThreshold :: real
  lastFrequency :: "real option"

definition new_PitchDetectorProcessor :: "nat \<Rightarrow> PitchDetectorProcessor" where
  "new_PitchDetectorProcessor rate =
     \<lparr>detectPitch = None, sampleRate = rate, accumulatedSamples = [],
      bufferSize = 4096, rmsThreshold = 0.01, lastFrequency = None\<rparr>"

definition initialize ::
  "(nat \<Rightarrow> real list \<Rightarrow> real option) \<Rightarrow> PitchDetectorProcessor \<Rightarrow> PitchDetectorProcessor" where
  "initialize ACF2PLUS p = p\<lparr>detectPitch := Some (ACF2PLUS (sampleRate p))\<rparr>"

text \<open>\<open>xs.slice(-n)\<close>: the last \<open>n\<close> elements; \<open>slice(-0)\<close> is \<open>slice(0)\<close>, the whole array.\<close>

definition slice_last :: "nat \<Rightarrow> 'a list \<Rightarrow> 'a list" where
  "slice_last n xs = (if n = 0 then xs else drop (length xs - n) xs)"

definition calculateRMS :: "real list \<Rightarrow> real" where
  "calculateRMS samples =
     sqrt (fold (\<lambda>x sum. sum + x * x) samples 0 / real (length samples))"

definition process ::
  "PitchDetectorProcessor \<Rightarrow> real list \<Rightarrow> error + real option \<times> PitchDetectorProcessor" where
  "process p samples =
     (case detectPitch p of
        None \<Rightarrow> Inl NotInitialized
      | Some detect \<Rightarrow>
          (let newBuffer = accumulatedSamples p @ samples;
               p1 = p\<lparr>accumulatedSamples := newBuffer\<rparr>
           in if length newBuffer < bufferSize p then Inr (lastFrequency p1, p1)
              else
                (let analysisBuffer = slice_last (bufferSize p) newBuffer;
                     overlap = bufferSize p div 2;
                     p2 = p1\<lparr>accumulatedSamples := slice_last overlap newBuffer\<rparr>;
                     rms = calculateRMS analysisBuffer
                 in if rms < rmsThreshold p then Inr (None, p2\<lparr>lastFrequency := None\<rparr>)
                    else
                      (case detect analysisBuffer of
                         Some fr \<Rightarrow>
                           if fr \<ge> GUITAR_FREQ_MIN \<and> fr \<le> GUITAR_FREQ_MAX
                           then Inr (Some fr, p2\<lparr>lastFrequency := Some fr\<rparr>)
                           else Inr (lastFrequency p2, p2)
                       | None \<Rightarrow> Inr (lastFrequency p2, p2)))))"

definition getLastFrequency :: "PitchDetectorProcessor \<Rightarrow> real option" where
  "getLastFrequency p = lastFrequency p"

definition reset :: "PitchDetectorProcessor \<Rightarrow> PitchDetectorProcessor" where
  "reset p = p\<lparr>accumulatedSamples := [], lastFrequency := None\<rparr>"


text \<open>
  For the examples: a stand-in for the library's detector, which reports 110 Hz for every
  window except a window of ones, where it misfires with 2000 Hz; an initialised estimator;
  and the estimator after one loud window of 4096 samples.
\<close>

definition demo_detector :: "nat \<Rightarrow> real list \<Rightarrow> real option" where
  "demo_detector rate w = (if w = replicate 4096 1 then Some 2000 else Some 110)"

definition listening :: PitchDetectorProcessor where
  "listening = initialize demo_detector (new_PitchDetectorProcessor 44100)"

definition heardA :: PitchDetectorProcessor where
  "heardA = (case process listening (replicate 4096 (1 / 2)) of
               Inr (f, p) \<Rightarrow> p | Inl e \<Rightarrow> listening)"


section \<open>The tuning session (session-manager.ts)\<close>

text \<open>
  The microphone is an external collaborator; of its state the model keeps whether it is
  capturing. Its calls \<open>stop()\<close> and \<open>removeAllListeners()\<close>, and \<open>reset()\<close> of the
  estimator, are made in \<open>cleanup\<close> on objects that the manager drops in the same step, so
  a released resource is a field set back to \<open>None\<close>.
\<close>

record MicrophoneCapture =
  isRunning :: bool

text \<open>\<open>tunedStrings\<close> is a \<open>Set\<close>: the elements in insertion order, each once.\<close>

record TuningSessionManager =
  session :: "TuningSession option"
  mic :: "MicrophoneCapture option"
  pitchDetector :: "PitchDetectorProcessor option"
  currentTuning :: "TuningPreset option"
  lastPitchResult :: "PitchResult option"
  stableString :: "int option"
  stableStartTime :: int
  tunedStrings :: "int list"

definition STABLE_DURATION_MS :: int where
  "STABLE_DURATION_MS = 400"

definition new_TuningSessionManager :: TuningSessionManager where
  "new_TuningSessionManager =
     \<lparr>session = None, mic = None, pitchDetector = None, currentTuning = None,
      lastPitchResult = None, stableString = None, stableStartTime = 0, tunedStrings = []\<rparr>"

text \<open>\<open>Set.prototype.add\<close>.\<close>

definition set_add :: "int \<Rightarrow> int list \<Rightarrow> int list" where
  "set_add x xs = (if x \<in> set xs then xs else xs @ [x])"

text \<open>\<open>this.session?.active\<close>, read as a condition.\<close>

definition session_active :: "TuningSessionManager \<Rightarrow> bool" where
  "session_active m = (case session m of None \<Rightarrow> False | Some s \<Rightarrow> active s)"

record StringInfo =
  si_stringNumber :: int
  si_note :: string
  si_frequency :: real

record TuningInfo =
  ti_id :: string
  ti_name :: string
  ti_description :: string
  ti_strings :: "StringInfo list"

record StartResult =
  success :: bool
  message :: string
  tuning :: "TuningInfo option"
  error :: "string option"

record StopResult =
  stop_success :: bool
  stop_message :: string
  stop_error :: "string option"

definition cleanup :: "TuningSessionManager \<Rightarrow> TuningSessionManager" where
  "cleanup m =
     (let m1 = (case mic m of Some c \<Rightarrow> m\<lparr>mic := None\<rparr> | None \<Rightarrow> m);
          m2 = (case pitchDetector m1 of Some p \<Rightarrow> m1\<lparr>pitchDetector := None\<rparr> | None \<Rightarrow> m1)
      in m2\<lparr>currentTuning := None, session := None, lastPitchResult := None,
             tunedStrings := []\<rparr>)"

text \<open>The handler of the microphone's \<open>audio\<close> event; \<open>now\<close> is the clock when it runs.\<close>

definition onAudio ::
  "int \<Rightarrow> real list \<Rightarrow> TuningSessionManager \<Rightarrow> error + TuningSessionManager" where
  "onAudio now samples m =
     (case (pitchDetector m, currentTuning m) of
        (Some pd, Some tun) \<Rightarrow>
          (case process pd samples of
             Inl e \<Rightarrow> Inl e
           | Inr (freq, pd') \<Rightarrow>
               (let r = createPitchResult freq tun;
                    m1 = m\<lparr>pitchDetector := Some pd', lastPitchResult := Some r\<rparr>;
                    currentString = closestString r
                in if currentString \<noteq> None \<and> currentString = stableString m1 then Inr m1
                   else if currentString \<noteq> None
                   then Inr (m1\<lparr>stableString := currentString, stableStartTime := now\<rparr>)
                   else Inr (m1\<lparr>stableString := None, stableStartTime := 0\<rparr>)))
      | _ \<Rightarrow> Inr m)"

text \<open>
  What the \<open>try\<close> block of \<open>startSession\<close> meets outside the program: an exception with its
  message (sox missing, a failed import, a microphone that does not start), or success, which
  brings the detector factory of \<open>pitchfinder\<close>.
\<close>

datatype setup_outcome = Thrown string | Ready "nat \<Rightarrow> real list \<Rightarrow> real option"

definition start_failure :: "string \<Rightarrow> StartResult" where
  "start_failure msg =
     (if str_includes msg ''sox''
      then \<lparr>success = False, message = ''sox is not installed'', tuning = None,
            error = Some ''Install sox with: brew install sox''\<rparr>
      else if str_includes msg ''permission'' \<or> str_includes msg ''access''
      then \<lparr>success = False, message = ''Microphone access denied'', tuning = None,
            error = Some (''Grant microphone permission in System Settings > ''
                          @ ''Privacy & Security > Microphone'')\<rparr>
      else \<lparr>success = False, message = ''Failed to start tuning session'', tuning = None,
            error = Some msg\<rparr>)"

definition startSession ::
  "string \<Rightarrow> int \<Rightarrow> setup_outcome \<Rightarrow> TuningSessionManager
     \<Rightarrow> StartResult \<times> TuningSessionManager" where
  "startSession tid now env m =
     (if session_active m
      then (\<lparr>success = False, message = ''A tuning session is already active.'',
             tuning = None,
             error = Some (''Stop the current session first. Currently tuning to: ''
                           @ tuningName (the (session m)))\<rparr>, m)
      else case getTuningById tid of
        None \<Rightarrow>
          (\<lparr>success = False, message = ''Unknown tuning: '' @ tid, tuning = None,
            error = Some (''Available tunings: '' @ join '', '' getTuningIds)\<rparr>, m)
      | Some tun \<Rightarrow>
          (case env of
             Thrown msg \<Rightarrow>
               (start_failure msg, cleanup (m\<lparr>mic := Some \<lparr>isRunning = False\<rparr>\<rparr>))
           | Ready ACF2PLUS \<Rightarrow>
               (\<lparr>success = True,
                 message = ''Started tuning session for '' @ preset_name tun,
                 tuning = Some
                   \<lparr>ti_id = preset_id tun, ti_name = preset_name tun,
                    ti_description = description tun,
                    ti_strings = map (\<lambda>s. \<lparr>si_stringNumber = stringNumber s,
                                             si_note = note_label (gs_note s),
                                             si_frequency = frequency (gs_note s)\<rparr>)
                                     (strings tun)\<rparr>,
                 error = None\<rparr>,
                m\<lparr>mic := Some \<lparr>isRunning = True\<rparr>,
                  pitchDetector := Some (initialize ACF2PLUS (new_PitchDetectorProcessor 44100)),
                  currentTuning := Some tun,
                  session := Some \<lparr>active = True, tuningId = preset_id tun,
                                   tuningName = preset_name tun, startedAt = now\<rparr>\<rparr>)))"

definition stopSession :: "TuningSessionManager \<Rightarrow> StopResult \<times> TuningSessionManager" where
  "stopSession m =
     (if \<not> session_active m
      then (\<lparr>stop_success = False, stop_message = ''No active tuning session'',
             stop_error = Some ''Call start_tuning first to begin a session.''\<rparr>, m)
      else (\<lparr>stop_success = True,
             stop_message = ''Stopped tuning session for '' @ tuningName (the (session m))
                            @ ''. Microphone released.'',
             stop_error = None\<rparr>, cleanup m))"

text \<open>
  The value \<open>waitForPitch\<close> resolves with: an error object, the result of a timeout, or a
  stable reading, which is the cached pitch result (\<open>reading\<close>) with the progress fields;
  \<open>progressTuned\<close> is the field \<open>tunedStrings\<close> of the returned object.
\<close>

record PitchProgress =
  reading :: PitchResult
  progressTuned :: "int list"
  tunedCount :: nat
  totalStrings :: nat
  allInTune :: bool

datatype WaitResult = WaitError string | WaitTimeout PitchResult | WaitStable PitchProgress

text \<open>
  One run of \<open>checkStability\<close> at clock \<open>now\<close> (both reads of the clock in one run are
  taken in the same millisecond): \<open>Some\<close> is the value the promise resolves with,
  \<open>None\<close> is "check again in 50 ms".
\<close>

definition checkStability ::
  "int \<Rightarrow> int \<Rightarrow> int \<Rightarrow> TuningSessionManager \<Rightarrow> WaitResult option \<times> TuningSessionManager" where
  "checkStability startTime timeoutMs now m =
     (if now - startTime > timeoutMs
      then (Some (WaitTimeout
              \<lparr>pr_frequency = None, noteName = None, centsDeviation = 0,
               closestString = None, inTune = False, tuningStatus = Flat,
               advice = ''Timed out waiting for a note. Play a string and hold it steady.''\<rparr>),
            m)
      else if \<not> session_active m
      then (Some (WaitError ''Tuning session was stopped.''), m)
      else if stableString m \<noteq> None \<and> stableStartTime m > 0
              \<and> now - stableStartTime m \<ge> STABLE_DURATION_MS
              \<and> lastPitchResult m \<noteq> None
              \<and> closestString (the (lastPitchResult m)) = stableString m
      then (let result = the (lastPitchResult m);
                tuned = (case closestString result of
                           Some n \<Rightarrow> if inTune result then set_add n (tunedStrings m)
                                     else tunedStrings m
                         | None \<Rightarrow> tunedStrings m)
            in (Some (WaitStable
                  \<lparr>reading = result, progressTuned = rev (sort tuned),
                   tunedCount = length tuned, totalStrings = 6,
                   allInTune = (length tuned = 6)\<rparr>),
                m\<lparr>tunedStrings := tuned\<rparr>))
      else (None, m))"

text \<open>
  What happens while a call of \<open>waitForPitch\<close> is pending, in the order the event loop runs
  it: a block of audio reaches the handler, the 50 ms timer fires and \<open>checkStability\<close>
  runs, or the session is stopped from outside.
\<close>

datatype event = Audio int "real list" | Tick int | Stop

fun wait_loop ::
  "int \<Rightarrow> int \<Rightarrow> event list \<Rightarrow> TuningSessionManager
     \<Rightarrow> WaitResult option \<times> TuningSessionManager" where
  "wait_loop startTime timeoutMs [] m = (None, m)"
| "wait_loop startTime timeoutMs (Audio now samples # es) m =
     (case onAudio now samples m of
        Inl e \<Rightarrow> wait_loop startTime timeoutMs es m
      | Inr m' \<Rightarrow> wait_loop startTime timeoutMs es m')"
| "wait_loop startTime timeoutMs (Stop # es) m =
     wait_loop startTime timeoutMs es (snd (stopSession m))"
| "wait_loop startTime timeoutMs (Tick now # es) m =
     (case checkStability startTime timeoutMs now m of
        (Some r, m') \<Rightarrow> (Some r, m')
      | (None, m') \<Rightarrow> wait_loop startTime timeoutMs es m')"

text \<open>
  \<open>waitForPitch\<close> called at clock \<open>now\<close>, followed by the events \<open>es\<close>. The first
  \<open>checkStability\<close> runs inside the call, before any event. \<open>None\<close> means that the
  promise is still pending when the events end.
\<close>

definition waitForPitch ::
  "int \<Rightarrow> int \<Rightarrow> event list \<Rightarrow> TuningSessionManager
     \<Rightarrow> WaitResult option \<times> TuningSessionManager" where
  "waitForPitch timeoutMs now es m =
     (if \<not> session_active m
      then (Some (WaitError ''No active tuning session. Call start_tuning first.''), m)
      else (let startTime = now;
                m1 = m\<lparr>stableString := None, stableStartTime := 0\<rparr>
            in wait_loop startTime timeoutMs (Tick now # es) m1))"


text \<open>
  For the examples: the manager after \<open>startSession('standard')\<close> at clock 1000, and
  after one loud block of audio at clock 2000.
\<close>

definition started :: TuningSessionManager where
  "started = snd (startSession ''standard'' 1000 (Ready demo_detector) new_TuningSessionManager)"

definition played :: TuningSessionManager where
  "played = (case onAudio 2000 (replicate 4096 (1 / 2)) started of
               Inr m \<Rightarrow> m | Inl e \<Rightarrow> started)"


text \<open>
  For the claims about the dwell time: the readings the handler caches while a wait is
  pending, each with the clock of its audio block (events as in \<open>wait_loop\<close>, for a
  stretch in which no check resolves).
\<close>

fun readings :: "event list \<Rightarrow> TuningSessionManager \<Rightarrow> (int \<times> int option) list" where
  "readings [] m = []"
| "readings (Audio now samples # es) m =
     (case onAudio now samples m of
        Inl e \<Rightarrow> readings es m
      | Inr m' \<Rightarrow>
          (if pitchDetector m \<noteq> None \<and> currentTuning m \<noteq> None
           then (now, closestString (the (lastPitchResult m'))) # readings es m'
           else readings es m'))"
| "readings (Stop # es) m = readings es (snd (stopSession m))"
| "readings (Tick now # es) m = readings es m"

text \<open>The longest run of readings at the end of \<open>rs\<close> that all matched string \<open>s\<close>.\<close>

definition current_run :: "(int \<times> int option) list \<Rightarrow> int \<Rightarrow> (int \<times> int option) list" where
  "current_run rs s = rev (takeWhile (\<lambda>x. snd x = Some s) (rev rs))"

text \<open>
  What every operation keeps true of the manager: the tuned strings are distinct
  positions between 1 and 6, the current tuning is a catalog preset, and the cached
  reading names a position between 1 and 6.
\<close>

definition session_inv :: "TuningSessionManager \<Rightarrow> bool" where
  "session_inv m \<longleftrightarrow>
     distinct (tunedStrings m) \<and> set (tunedStrings m) \<subseteq> {1, 2, 3, 4, 5, 6}
   \<and> (case currentTuning m of None \<Rightarrow> True | Some t \<Rightarrow> t \<in> set TUNING_PRESETS)
   \<and> (case lastPitchResult m of
         None \<Rightarrow> True
       | Some r \<Rightarrow> (case closestString r of
                     None \<Rightarrow> True | Some s \<Rightarrow> s \<in> {1, 2, 3, 4, 5, 6}))"

text \<open>
  For the examples: two loud blocks 90 ms apart with a check after each, the second check
  440 ms after the first block; and the session with every string but string 5 tuned.
\<close>

definition holding_A :: "event list" where
  "holding_A = [Audio 3010 (replicate 4096 (1 / 2)), Tick 3050,
                Audio 3100 (replicate 4096 (1 / 2)), Tick 3450]"

definition almost_tuned :: TuningSessionManager where
  "almost_tuned = played\<lparr>tunedStrings := [6, 4, 3, 2, 1]\<rparr>"

text \<open>
  The tracker agrees with the readings: it holds the string of the last reading, and its
  start time is the clock of the first reading of the current run.
\<close>

definition tracker_inv :: "TuningSessionManager \<Rightarrow> (int \<times> int option) list \<Rightarrow> bool" where
  "tracker_inv m rs \<longleftrightarrow>
     stableString m = (if rs = [] then None else snd (last rs))
   \<and> (\<forall>s. stableString m = Some s \<longrightarrow> stableStartTime m = fst (hd (current_run rs s)))"


section \<open>Facts about the catalog\<close>

lemma powr_twelfth_gt:
  fixes lo :: real
  assumes "0 \<le> lo" and "lo ^ 12 < 2 powr (of_int k)"
  shows "lo < 2 powr (of_int k / 12)"
proof -
  have "(2 powr (of_int k / 12)) ^ 12 = 2 powr (of_int k :: real)"
    by (simp add: powr_power)
  with assms(2) have "lo ^ 12 < (2 powr (of_int k / 12)) ^ 12"
    by simp
  then show ?thesis
    using power_less_imp_less_base [of lo 12 "2 powr (of_int k / 12)"] by simp
qed

lemma powr_twelfth_lt:
  fixes hi :: real
  assumes "0 \<le> hi" and "2 powr (of_int k) < hi ^ 12"
  shows "2 powr (of_int k / 12) < hi"
proof -
  have "(2 powr (of_int k / 12)) ^ 12 = 2 powr (of_int k :: real)"
    by (simp add: powr_power)
  with assms(2) have "(2 powr (of_int k / 12)) ^ 12 < hi ^ 12"
    by simp
  then show ?thesis
    using power_less_imp_less_base [of "2 powr (of_int k / 12)" 12 hi] assms(1) by simp
qed

text \<open>
  The frequency of MIDI number \<open>m\<close> in hundredths is \<open>c\<close> as soon as the exact value lies
  strictly between \<open>c - 1/2\<close> and \<open>c + 1/2\<close> hundredths; both bounds are comparisons of
  twelfth powers of rationals.
\<close>

lemma note_frequency_hundredths:
  assumes "1 \<le> c"
    and "((of_int c - 1 / 2) / 44000 :: real) ^ 12 < 2 powr (of_int (m - 69))"
    and "2 powr (of_int (m - 69)) < ((of_int c + 1 / 2) / 44000 :: real) ^ 12"
  shows "frequency (make_note nm oct m) = of_int c / 100"
proof -
  let ?p = "2 powr (of_int (m - 69) / 12) :: real"
  have lo: "(of_int c - 1 / 2) / 44000 < ?p"
    using assms(1,2) by (intro powr_twelfth_gt) simp_all
  have hi: "?p < (of_int c + 1 / 2) / 44000"
    using assms(1,3) by (intro powr_twelfth_lt) simp_all
  have "\<lfloor>440 * ?p * 100 + 1 / 2\<rfloor> = c"
    using lo hi by (simp add: floor_eq_iff field_simps)
  then show ?thesis
    by (simp add: make_note_def js_round_def midiToFrequency_def
        A4_FREQUENCY_def A4_MIDI_def)
qed

lemma E2_frequency: "frequency (make_note nm oct 40) = 82.41"
  using note_frequency_hundredths [of 8241 40 nm oct]
  by (simp add: powr_minus power_divide divide_simps)

lemma A2_frequency: "frequency (make_note nm oct 45) = 110"
  using note_frequency_hundredths [of 11000 45 nm oct]
  by (simp add: powr_minus power_divide divide_simps)

lemma D3_frequency: "frequency (make_note nm oct 50) = 146.83"
  using note_frequency_hundredths [of 14683 50 nm oct]
  by (simp add: powr_minus power_divide divide_simps)

lemma G3_frequency: "frequency (make_note nm oct 55) = 196"
  using note_frequency_hundredths [of 19600 55 nm oct]
  by (simp add: powr_minus power_divide divide_simps)

lemma B3_frequency: "frequency (make_note nm oct 59) = 246.94"
  using note_frequency_hundredths [of 24694 59 nm oct]
  by (simp add: powr_minus power_divide divide_simps)

lemma E4_frequency: "frequency (make_note nm oct 64) = 329.63"
  using note_frequency_hundredths [of 32963 64 nm oct]
  by (simp add: powr_minus power_divide divide_simps)

lemma A4_frequency: "frequency (make_note nm oct 69) = 440"
  using note_frequency_hundredths [of 44000 69 nm oct]
  by (simp add: power_divide divide_simps)

lemma js_round_near: "\<bar>of_int (js_round x) - x\<bar> \<le> 1 / 2"
  unfolding js_round_def by linarith

text \<open>
  C7. The frequency of a note built from MIDI number \<open>i\<close> is
  \<open>440 * 2^((i - 69) / 12)\<close> rounded to two decimal places: it is a whole number of
  hundredths, the one nearest to the exact value (a tie going up), and so at most half a
  hundredth away from it. MIDI number 69 gives 440.00, 40 gives 82.41 and 64 gives 329.63.
\<close>

theorem note_frequency_rounded:
  "frequency (make_note nm oct i)
     = of_int (round (440 * 2 powr ((of_int i - 69) / 12) * 100 :: real)) / 100
   \<and> \<bar>frequency (make_note nm oct i) - 440 * 2 powr ((of_int i - 69) / 12)\<bar> \<le> 1 / 200
   \<and> frequency (make_note nm oct 69) = 440.00
   \<and> frequency (make_note nm oct 40) = 82.41
   \<and> frequency (make_note nm oct 64) = 329.63"
proof -
  let ?x = "440 * 2 powr ((of_int i - 69) / 12) :: real"
  have f: "frequency (make_note nm oct i) = of_int (js_round (?x * 100)) / 100"
    by (simp add: make_note_def midiToFrequency_def A4_FREQUENCY_def A4_MIDI_def)
  have r: "js_round (?x * 100) = round (?x * 100)"
    by (simp add: js_round_def round_def)
  have "\<bar>of_int (js_round (?x * 100)) - ?x * 100\<bar> \<le> 1 / 2"
    by (rule js_round_near)
  then have d: "\<bar>of_int (js_round (?x * 100)) / 100 - ?x\<bar> \<le> 1 / 200"
    by (simp add: abs_le_iff field_simps)
  have c1: "frequency (make_note nm oct i) = of_int (round (?x * 100)) / 100"
    by (simp only: f r)
  have c2: "\<bar>frequency (make_note nm oct i) - ?x\<bar> \<le> 1 / 200"
    by (simp only: f d)
  have c3: "frequency (make_note nm oct 69) = 440.00"
    using A4_frequency [of nm oct] by simp
  show ?thesis
    using c1 c2 c3 E2_frequency [of nm oct] E4_frequency [of nm oct]
    by (intro conjI)
qed

lemma positions_6_to_1: "{6, 5, 4, 3, 2, 1} = {1, 2, 3, 4, 5, 6 :: int}"
  by auto

lemma six_strings_catalog: "list_all six_strings TUNING_PRESETS"
  by (simp add: TUNING_PRESETS_def six_strings_def positions_6_to_1)

lemma getTuningById_in_catalog:
  "getTuningById i = Some t \<Longrightarrow> t \<in> set TUNING_PRESETS \<and> preset_id t = i"
  unfolding getTuningById_def by (auto simp: find_Some_iff)

lemma getTuningIds_resolve:
  "i \<in> set getTuningIds \<Longrightarrow> \<exists>t. getTuningById i = Some t"
proof -
  assume "i \<in> set getTuningIds"
  then have "\<exists>t\<in>set TUNING_PRESETS. preset_id t = i"
    by (auto simp: getTuningIds_def)
  then have "find (\<lambda>t. preset_id t = i) TUNING_PRESETS \<noteq> None"
    by (auto simp: find_None_iff)
  then show ?thesis
    by (auto simp: getTuningById_def)
qed

text \<open>
  C8. Every preset of the catalog has exactly six strings, and their positions are exactly
  1, 2, 3, 4, 5 and 6, each once. The same holds for every preset that \<open>getTuningById\<close>
  returns, and every identifier that \<open>getTuningIds\<close> lists resolves to such a preset.
\<close>

theorem catalog_six_strings:
  "(\<forall>t \<in> set TUNING_PRESETS.
      length (strings t) = 6 \<and> distinct (map stringNumber (strings t)) \<and>
      set (map stringNumber (strings t)) = {1, 2, 3, 4, 5, 6})
   \<and> (\<forall>i t. getTuningById i = Some t \<longrightarrow>
      length (strings t) = 6 \<and> distinct (map stringNumber (strings t)) \<and>
      set (map stringNumber (strings t)) = {1, 2, 3, 4, 5, 6})
   \<and> (\<forall>i \<in> set getTuningIds. \<exists>t. getTuningById i = Some t \<and>
      length (strings t) = 6 \<and> distinct (map stringNumber (strings t)) \<and>
      set (map stringNumber (strings t)) = {1, 2, 3, 4, 5, 6})"
proof -
  have all: "\<forall>t \<in> set TUNING_PRESETS. six_strings t"
    using six_strings_catalog by (simp add: list_all_iff)
  have byid: "six_strings t" if "getTuningById i = Some t" for i t
    using all getTuningById_in_catalog [OF that] by blast
  have ids: "\<exists>t. getTuningById i = Some t \<and> six_strings t" if "i \<in> set getTuningIds" for i
    using getTuningIds_resolve [OF that] byid by blast
  show ?thesis
    using all byid ids unfolding six_strings_def by blast
qed

theorem catalog_six_strings_witness:
  "''open-g'' \<in> set getTuningIds
   \<and> (\<exists>t. getTuningById ''open-g'' = Some t \<and> t \<in> set TUNING_PRESETS \<and>
        map stringNumber (strings t) = [6, 5, 4, 3, 2, 1] \<and>
        length (strings t) = 6 \<and> distinct (map stringNumber (strings t)) \<and>
        set (map stringNumber (strings t)) = {1, 2, 3, 4, 5, 6})"
proof -
  have m: "''open-g'' \<in> set getTuningIds"
    by (simp add: getTuningIds_def TUNING_PRESETS_def)
  obtain t where t: "getTuningById ''open-g'' = Some t"
    "length (strings t) = 6" "distinct (map stringNumber (strings t))"
    "set (map stringNumber (strings t)) = {1, 2, 3, 4, 5, 6}"
    using catalog_six_strings m by blast
  have "t \<in> set TUNING_PRESETS"
    using getTuningById_in_catalog [OF t(1)] by simp
  moreover have "map stringNumber (strings t) = [6, 5, 4, 3, 2, 1]"
    using t(1) by (auto simp: getTuningById_def TUNING_PRESETS_def)
  ultimately show ?thesis
    using m t by (intro conjI exI [of _ t]) simp_all
qed

section \<open>Facts about the frequency matcher\<close>

lemma log2_le_twelfth_iff:
  assumes "0 < x"
  shows "log 2 x \<le> 1 / 12 \<longleftrightarrow> x ^ 12 \<le> 2"
proof -
  have "log 2 (x ^ 12) = 12 * log 2 x"
    using assms by (simp add: log_nat_power)
  moreover have "log 2 (x ^ 12) \<le> 1 \<longleftrightarrow> x ^ 12 \<le> 2"
    using assms by (simp add: log_le_iff)
  ultimately show ?thesis by auto
qed

lemma abs_cents_le_100_iff:
  assumes "0 < d" and "0 < t"
  shows "\<bar>calculateCents d t\<bar> \<le> 100 \<longleftrightarrow> d ^ 12 \<le> 2 * t ^ 12 \<and> t ^ 12 \<le> 2 * d ^ 12"
proof -
  have d12: "(d / t) ^ 12 \<le> 2 \<longleftrightarrow> d ^ 12 \<le> 2 * t ^ 12"
    using assms by (simp add: power_divide pos_divide_le_eq)
  have t12: "(t / d) ^ 12 \<le> 2 \<longleftrightarrow> t ^ 12 \<le> 2 * d ^ 12"
    using assms by (simp add: power_divide pos_divide_le_eq)
  have a: "log 2 (d / t) \<le> 1 / 12 \<longleftrightarrow> d ^ 12 \<le> 2 * t ^ 12"
    using assms log2_le_twelfth_iff [of "d / t"] d12 by simp
  have "log 2 (t / d) = - log 2 (d / t)"
    using assms by (simp add: log_divide)
  then have "- (1 / 12) \<le> log 2 (d / t) \<longleftrightarrow> log 2 (t / d) \<le> 1 / 12"
    by linarith
  then have b: "- (1 / 12) \<le> log 2 (d / t) \<longleftrightarrow> t ^ 12 \<le> 2 * d ^ 12"
    using assms log2_le_twelfth_iff [of "t / d"] t12 by simp
  have "\<bar>calculateCents d t\<bar> \<le> 100 \<longleftrightarrow> - (1 / 12) \<le> log 2 (d / t) \<and> log 2 (d / t) \<le> 1 / 12"
    unfolding calculateCents_def by (auto simp: abs_le_iff)
  then show ?thesis
    using a b by blast
qed


lemma closest_loop_step:
  "closest_loop f (g # gs) v =
     closest_loop f gs
       (if (case fst (snd v) of None \<Rightarrow> True | Some d \<Rightarrow> abs_cents f g < d) \<and> abs_cents f g \<le> 100
        then (Some (stringNumber g), Some (abs_cents f g), note_label (gs_note g)) else v)"
  unfolding abs_cents_def by (cases v) (simp add: Let_def)

lemma vars_ok_take:
  assumes ok: "vars_ok f S v"
    and lt: "case fst (snd v) of None \<Rightarrow> True | Some d \<Rightarrow> abs_cents f g < d"
    and le: "abs_cents f g \<le> 100"
  shows "vars_ok f (insert g S) (Some (stringNumber g), Some (abs_cents f g), note_label (gs_note g))"
proof -
  have "abs_cents f g \<le> abs_cents f g'" if "g' \<in> S" for g'
  proof -
    from ok consider
      (none) "\<forall>h\<in>S. 100 < abs_cents f h"
      | (some) h where "h \<in> S" "fst (snd v) = Some (abs_cents f h)"
          "\<forall>g'\<in>S. abs_cents f h \<le> abs_cents f g'"
      unfolding vars_ok_def by auto
    then show ?thesis
    proof cases
      case none
      with that le show ?thesis by fastforce
    next
      case some
      with lt have "abs_cents f g < abs_cents f h" by simp
      with some(3) that show ?thesis by fastforce
    qed
  qed
  with le show ?thesis
    unfolding vars_ok_def by auto
qed

lemma vars_ok_skip:
  assumes ok: "vars_ok f S v"
    and no: "\<not> ((case fst (snd v) of None \<Rightarrow> True | Some d \<Rightarrow> abs_cents f g < d)
                \<and> abs_cents f g \<le> 100)"
  shows "vars_ok f (insert g S) v"
proof -
  from ok consider
    (none) "fst v = None" "fst (snd v) = None" "\<forall>h\<in>S. 100 < abs_cents f h"
    | (some) h where "h \<in> S"
        "v = (Some (stringNumber h), Some (abs_cents f h), note_label (gs_note h))"
        "abs_cents f h \<le> 100" "\<forall>g'\<in>S. abs_cents f h \<le> abs_cents f g'"
    unfolding vars_ok_def by auto
  then show ?thesis
  proof cases
    case none
    with no have "100 < abs_cents f g" by simp
    with none show ?thesis
      unfolding vars_ok_def by simp
  next
    case some
    from no some(2) have "abs_cents f h \<le> abs_cents f g \<or> 100 < abs_cents f g"
      by auto
    with some(3) have "abs_cents f h \<le> abs_cents f g" by linarith
    with some show ?thesis
      unfolding vars_ok_def by blast
  qed
qed

lemma closest_loop_ok:
  "vars_ok f S v \<Longrightarrow> vars_ok f (S \<union> set gs) (closest_loop f gs v)"
proof (induction gs arbitrary: S v)
  case Nil
  then show ?case by simp
next
  case (Cons g gs)
  let ?take = "(case fst (snd v) of None \<Rightarrow> True | Some d \<Rightarrow> abs_cents f g < d)
                 \<and> abs_cents f g \<le> 100"
  let ?v' = "if ?take
             then (Some (stringNumber g), Some (abs_cents f g), note_label (gs_note g)) else v"
  have step: "vars_ok f (insert g S) ?v'"
  proof (cases ?take)
    case True
    then have "vars_ok f (insert g S)
        (Some (stringNumber g), Some (abs_cents f g), note_label (gs_note g))"
      by (intro vars_ok_take [OF Cons.prems]) simp_all
    then show ?thesis
      unfolding if_P [OF True] .
  next
    case False
    have "vars_ok f (insert g S) v"
      by (rule vars_ok_skip [OF Cons.prems False])
    then show ?thesis
      unfolding if_not_P [OF False] .
  qed
  have "vars_ok f (insert g S \<union> set gs) (closest_loop f gs ?v')"
    by (rule Cons.IH [OF step])
  then show ?case
    by (simp only: closest_loop_step list.set Un_insert_left Un_insert_right)
qed

lemma closest_loop_initial:
  "vars_ok f (set gs) (closest_loop f gs (None, None, []))"
proof -
  have "vars_ok f {} (None, None, [])"
    by (simp add: vars_ok_def)
  from closest_loop_ok [OF this, of gs] show ?thesis by simp
qed

text \<open>The lookup of the target string by its number succeeds.\<close>

lemma closest_found:
  assumes "fst (closest_loop f (strings tun) (None, None, [])) = Some n"
  shows "find (\<lambda>s. stringNumber s = n) (strings tun) \<noteq> None"
proof -
  from closest_loop_initial [of f "strings tun"] assms
  obtain g where "g \<in> set (strings tun)" "stringNumber g = n"
    unfolding vars_ok_def by auto
  then show ?thesis
    by (auto simp: find_None_iff)
qed

lemma findClosestString_None_iff:
  assumes "GUITAR_FREQ_MIN \<le> f" and "f \<le> GUITAR_FREQ_MAX"
  shows "findClosestString f tun = None \<longleftrightarrow> (\<forall>g\<in>set (strings tun). 100 < abs_cents f g)"
proof -
  obtain c s nm where v: "closest_loop f (strings tun) (None, None, []) = (c, s, nm)"
    by (cases "closest_loop f (strings tun) (None, None, [])") auto
  have none: "findClosestString f tun = None \<longleftrightarrow> c = None"
    using assms by (simp add: findClosestString_def v Let_def split: option.splits)
  have "c = None \<longleftrightarrow> (\<forall>g\<in>set (strings tun). 100 < abs_cents f g)"
    using closest_loop_initial [of f "strings tun"] unfolding vars_ok_def v
    by fastforce
  with none show ?thesis by simp
qed

lemma findClosestString_Some:
  assumes "findClosestString f tun = Some r"
  shows "\<exists>g\<in>set (strings tun).
           cs_stringNumber r = stringNumber g \<and> cs_noteName r = note_label (gs_note g)
           \<and> abs_cents f g \<le> 100 \<and> (\<forall>g'\<in>set (strings tun). abs_cents f g \<le> abs_cents f g')"
proof -
  obtain c s nm where v: "closest_loop f (strings tun) (None, None, []) = (c, s, nm)"
    by (cases "closest_loop f (strings tun) (None, None, [])") auto
  from assms obtain n where n: "c = Some n" "cs_stringNumber r = n" "cs_noteName r = nm"
    by (auto simp: findClosestString_def v Let_def split: if_splits option.splits)
  from closest_loop_initial [of f "strings tun"] n(1)
  obtain g where "g \<in> set (strings tun)" "n = stringNumber g" "nm = note_label (gs_note g)"
    "abs_cents f g \<le> 100" "\<forall>g'\<in>set (strings tun). abs_cents f g \<le> abs_cents f g'"
    unfolding vars_ok_def v by auto
  with n show ?thesis by blast
qed

lemma standardTuning_found: "getTuningById ''standard'' = Some standardTuning"
  by (simp add: standardTuning_def getTuningById_def TUNING_PRESETS_def)

lemma standardTuning_strings:
  "strings standardTuning =
     [\<lparr>stringNumber = 6, gs_note = make_note ''E'' 2 40\<rparr>,
      \<lparr>stringNumber = 5, gs_note = make_note ''A'' 2 45\<rparr>,
      \<lparr>stringNumber = 4, gs_note = make_note ''D'' 3 50\<rparr>,
      \<lparr>stringNumber = 3, gs_note = make_note ''G'' 3 55\<rparr>,
      \<lparr>stringNumber = 2, gs_note = make_note ''B'' 3 59\<rparr>,
      \<lparr>stringNumber = 1, gs_note = make_note ''E'' 4 64\<rparr>]"
  by (simp add: standardTuning_def getTuningById_def TUNING_PRESETS_def)

lemma far_above:
  assumes "frequency (gs_note g) = t" and "0 < t" and "0 < d" and "2 * t ^ 12 < d ^ 12"
  shows "100 < abs_cents d g"
  using abs_cents_le_100_iff [OF assms(3,2)] assms(1,4) unfolding abs_cents_def by simp

lemma far_below:
  assumes "frequency (gs_note g) = t" and "0 < t" and "0 < d" and "2 * d ^ 12 < t ^ 12"
  shows "100 < abs_cents d g"
  using abs_cents_le_100_iff [OF assms(3,2)] assms(1,4) unfolding abs_cents_def by simp

lemma halfE4_far:
  assumes "g \<in> set (strings standardTuning)"
  shows "100 < abs_cents halfE4 g"
proof -
  from assms consider
    "g = \<lparr>stringNumber = 6, gs_note = make_note ''E'' 2 40\<rparr>"
    | "g = \<lparr>stringNumber = 5, gs_note = make_note ''A'' 2 45\<rparr>"
    | "g = \<lparr>stringNumber = 4, gs_note = make_note ''D'' 3 50\<rparr>"
    | "g = \<lparr>stringNumber = 3, gs_note = make_note ''G'' 3 55\<rparr>"
    | "g = \<lparr>stringNumber = 2, gs_note = make_note ''B'' 3 59\<rparr>"
    | "g = \<lparr>stringNumber = 1, gs_note = make_note ''E'' 4 64\<rparr>"
    unfolding standardTuning_strings by auto
  then show ?thesis
  proof cases
    case 1
    show ?thesis
      by (rule far_above [where t = "82.41"])
        (simp_all add: 1 E2_frequency halfE4_def power_divide divide_simps)
  next
    case 2
    show ?thesis
      by (rule far_above [where t = 110])
        (simp_all add: 2 A2_frequency halfE4_def power_divide divide_simps)
  next
    case 3
    show ?thesis
      by (rule far_above [where t = "146.83"])
        (simp_all add: 3 D3_frequency halfE4_def power_divide divide_simps)
  next
    case 4
    show ?thesis
      by (rule far_below [where t = 196])
        (simp_all add: 4 G3_frequency halfE4_def power_divide divide_simps)
  next
    case 5
    show ?thesis
      by (rule far_below [where t = "246.94"])
        (simp_all add: 5 B3_frequency halfE4_def power_divide divide_simps)
  next
    case 6
    show ?thesis
      by (rule far_below [where t = "329.63"])
        (simp_all add: 6 E4_frequency halfE4_def power_divide divide_simps)
  qed
qed

lemma halfE4_in_range: "GUITAR_FREQ_MIN \<le> halfE4 \<and> halfE4 \<le> GUITAR_FREQ_MAX"
  by (simp add: halfE4_def GUITAR_FREQ_MIN_def GUITAR_FREQ_MAX_def)

lemma halfE4_unmatched: "findClosestString halfE4 standardTuning = None"
  using findClosestString_None_iff [of halfE4 standardTuning] halfE4_in_range halfE4_far
  by blast

lemma findClosestString_centsOff:
  assumes r: "findClosestString f tun = Some r"
    and d: "distinct (map stringNumber (strings tun))"
    and g: "g \<in> set (strings tun)" "stringNumber g = cs_stringNumber r"
  shows "centsOff r = of_int (js_round (calculateCents f (frequency (gs_note g)) * 10)) / 10"
proof -
  obtain c s nm where v: "closest_loop f (strings tun) (None, None, []) = (c, s, nm)"
    by (cases "closest_loop f (strings tun) (None, None, [])") auto
  let ?t = "the (find (\<lambda>s. stringNumber s = cs_stringNumber r) (strings tun))"
  from r have n: "c = Some (cs_stringNumber r)"
    and c: "centsOff r = of_int (js_round (calculateCents f (frequency (gs_note ?t)) * 10)) / 10"
    by (auto simp: findClosestString_def v Let_def split: if_splits option.splits)
  from n v have "find (\<lambda>s. stringNumber s = cs_stringNumber r) (strings tun) \<noteq> None"
    using closest_found [of f tun "cs_stringNumber r"] by simp
  then obtain h where h: "find (\<lambda>s. stringNumber s = cs_stringNumber r) (strings tun) = Some h"
    by auto
  then have "h \<in> set (strings tun)" "stringNumber h = cs_stringNumber r"
    by (auto simp: find_Some_iff)
  with d g have "h = g"
    by (auto simp: distinct_map inj_on_def)
  with c h show ?thesis by simp
qed

lemma E4_far:
  assumes "g \<in> set (strings standardTuning)" and "stringNumber g \<noteq> 1"
  shows "100 < abs_cents (2 * halfE4) g"
proof -
  from assms consider
    "g = \<lparr>stringNumber = 6, gs_note = make_note ''E'' 2 40\<rparr>"
    | "g = \<lparr>stringNumber = 5, gs_note = make_note ''A'' 2 45\<rparr>"
    | "g = \<lparr>stringNumber = 4, gs_note = make_note ''D'' 3 50\<rparr>"
    | "g = \<lparr>stringNumber = 3, gs_note = make_note ''G'' 3 55\<rparr>"
    | "g = \<lparr>stringNumber = 2, gs_note = make_note ''B'' 3 59\<rparr>"
    unfolding standardTuning_strings by auto
  then show ?thesis
  proof cases
    case 1
    show ?thesis
      by (rule far_above [where t = "82.41"])
        (simp_all add: 1 E2_frequency halfE4_def power_divide divide_simps)
  next
    case 2
    show ?thesis
      by (rule far_above [where t = 110])
        (simp_all add: 2 A2_frequency halfE4_def power_divide divide_simps)
  next
    case 3
    show ?thesis
      by (rule far_above [where t = "146.83"])
        (simp_all add: 3 D3_frequency halfE4_def power_divide divide_simps)
  next
    case 4
    show ?thesis
      by (rule far_above [where t = 196])
        (simp_all add: 4 G3_frequency halfE4_def power_divide divide_simps)
  next
    case 5
    show ?thesis
      by (rule far_above [where t = "246.94"])
        (simp_all add: 5 B3_frequency halfE4_def power_divide divide_simps)
  qed
qed

lemma standardTuning_distinct: "distinct (map stringNumber (strings standardTuning))"
  by (simp add: standardTuning_strings)

lemma E4_label: "note_label (make_note ''E'' 4 64) = ''E4''"
  by (simp add: note_label_def make_note_def show_int_def show_nat.simps [of 4])

lemma E4_matched:
  "\<exists>r. findClosestString (2 * halfE4) standardTuning = Some r
       \<and> cs_stringNumber r = 1 \<and> cs_noteName r = ''E4'' \<and> centsOff r = 0"
proof -
  let ?s1 = "\<lparr>stringNumber = 1, gs_note = make_note ''E'' 4 64\<rparr>"
  have range: "GUITAR_FREQ_MIN \<le> 2 * halfE4" "2 * halfE4 \<le> GUITAR_FREQ_MAX"
    by (simp_all add: halfE4_def GUITAR_FREQ_MIN_def GUITAR_FREQ_MAX_def)
  have s1: "?s1 \<in> set (strings standardTuning)"
    by (simp add: standardTuning_strings)
  have zero: "calculateCents (2 * halfE4) (frequency (gs_note ?s1)) = 0"
    by (simp add: calculateCents_def E4_frequency halfE4_def)
  then have "\<not> 100 < abs_cents (2 * halfE4) ?s1"
    by (simp add: abs_cents_def)
  with s1 have "findClosestString (2 * halfE4) standardTuning \<noteq> None"
    using findClosestString_None_iff [OF range, of standardTuning] by blast
  then obtain r where r: "findClosestString (2 * halfE4) standardTuning = Some r"
    by auto
  from findClosestString_Some [OF r] obtain g where g: "g \<in> set (strings standardTuning)"
    "cs_stringNumber r = stringNumber g" "cs_noteName r = note_label (gs_note g)"
    "abs_cents (2 * halfE4) g \<le> 100"
    by blast
  from g(1,4) E4_far [of g] have one: "stringNumber g = 1"
    by fastforce
  with g(1) have eq: "g = ?s1"
    unfolding standardTuning_strings by auto
  have "centsOff r = 0"
    using findClosestString_centsOff [OF r standardTuning_distinct g(1)] g(2) zero eq
    by (simp add: js_round_def)
  with r g(2,3) one eq E4_label show ?thesis
    by simp
qed

text \<open>
  C3. For a tuning whose target frequencies are positive: outside 70 to 1500 Hz
  \<open>findClosestString\<close> returns nothing. Inside that range it returns nothing exactly when
  every string is more than 100 cents away; and whenever it returns a match, the frequency
  is in range and the match carries the number and the note name of a string of the tuning that is
  within 100 cents and that no other string of the tuning is nearer to.
\<close>

theorem findClosestString_nearest_within_100:
  assumes "\<forall>g\<in>set (strings tun). 0 < frequency (gs_note g)"
  shows "(f < 70 \<or> 1500 < f \<longrightarrow> findClosestString f tun = None)
   \<and> (70 \<le> f \<and> f \<le> 1500 \<longrightarrow>
        (findClosestString f tun = None \<longleftrightarrow>
           (\<forall>g\<in>set (strings tun). 100 < \<bar>calculateCents f (frequency (gs_note g))\<bar>)))
   \<and> (\<forall>r. findClosestString f tun = Some r \<longrightarrow>
        70 \<le> f \<and> f \<le> 1500 \<and>
        (\<exists>g\<in>set (strings tun).
            cs_stringNumber r = stringNumber g
          \<and> cs_noteName r = name (gs_note g) @ show_int (octave (gs_note g))
          \<and> \<bar>calculateCents f (frequency (gs_note g))\<bar> \<le> 100
          \<and> (\<forall>g'\<in>set (strings tun).
                \<bar>calculateCents f (frequency (gs_note g))\<bar>
                  \<le> \<bar>calculateCents f (frequency (gs_note g'))\<bar>)))"
proof (intro conjI allI impI)
  assume "f < 70 \<or> 1500 < f"
  then show "findClosestString f tun = None"
    by (auto simp: findClosestString_def GUITAR_FREQ_MIN_def GUITAR_FREQ_MAX_def)
next
  assume "70 \<le> f \<and> f \<le> 1500"
  then show "findClosestString f tun = None \<longleftrightarrow>
      (\<forall>g\<in>set (strings tun). 100 < \<bar>calculateCents f (frequency (gs_note g))\<bar>)"
    using findClosestString_None_iff [of f tun]
    by (simp add: GUITAR_FREQ_MIN_def GUITAR_FREQ_MAX_def abs_cents_def)
next
  fix r assume "findClosestString f tun = Some r"
  then show "70 \<le> f"
    by (auto simp: findClosestString_def GUITAR_FREQ_MIN_def split: if_splits)
next
  fix r assume "findClosestString f tun = Some r"
  then show "f \<le> 1500"
    by (auto simp: findClosestString_def GUITAR_FREQ_MAX_def split: if_splits)
next
  fix r assume "findClosestString f tun = Some r"
  from findClosestString_Some [OF this]
  show "\<exists>g\<in>set (strings tun).
            cs_stringNumber r = stringNumber g
          \<and> cs_noteName r = name (gs_note g) @ show_int (octave (gs_note g))
          \<and> \<bar>calculateCents f (frequency (gs_note g))\<bar> \<le> 100
          \<and> (\<forall>g'\<in>set (strings tun).
                \<bar>calculateCents f (frequency (gs_note g))\<bar>
                  \<le> \<bar>calculateCents f (frequency (gs_note g'))\<bar>)"
    by (simp add: abs_cents_def note_label_def)
qed

lemma standardTuning_positive: "\<forall>g\<in>set (strings standardTuning). 0 < frequency (gs_note g)"
  by (simp add: standardTuning_strings E2_frequency A2_frequency D3_frequency G3_frequency
      B3_frequency E4_frequency)

theorem findClosestString_nearest_within_100_witness:
  "list_all (\<lambda>g. 0 < frequency (gs_note g)) (strings standardTuning)
   \<and> findClosestString 50 standardTuning = None
   \<and> findClosestString 2000 standardTuning = None
   \<and> (70 \<le> halfE4 \<and> halfE4 \<le> 1500)
   \<and> findClosestString halfE4 standardTuning = None
   \<and> (\<exists>r g. findClosestString (2 * halfE4) standardTuning = Some r
         \<and> g \<in> set (strings standardTuning) \<and> cs_stringNumber r = stringNumber g
         \<and> \<bar>calculateCents (2 * halfE4) (frequency (gs_note g))\<bar> \<le> 100)"
proof -
  note T = findClosestString_nearest_within_100 [OF standardTuning_positive]
  have a: "findClosestString 50 standardTuning = None"
    using T [of 50] by simp
  have b: "findClosestString 2000 standardTuning = None"
    using T [of 2000] by simp
  have c: "70 \<le> halfE4 \<and> halfE4 \<le> 1500"
    by (simp add: halfE4_def)
  have "\<forall>g\<in>set (strings standardTuning).
          100 < \<bar>calculateCents halfE4 (frequency (gs_note g))\<bar>"
    using halfE4_far by (simp add: abs_cents_def)
  with c have d: "findClosestString halfE4 standardTuning = None"
    using T [of halfE4] by blast
  obtain r where r: "findClosestString (2 * halfE4) standardTuning = Some r"
    using E4_matched by blast
  with T [of "2 * halfE4"] obtain g where "g \<in> set (strings standardTuning)"
    "cs_stringNumber r = stringNumber g"
    "\<bar>calculateCents (2 * halfE4) (frequency (gs_note g))\<bar> \<le> 100"
    by blast
  with r have e: "\<exists>r g. findClosestString (2 * halfE4) standardTuning = Some r
         \<and> g \<in> set (strings standardTuning) \<and> cs_stringNumber r = stringNumber g
         \<and> \<bar>calculateCents (2 * halfE4) (frequency (gs_note g))\<bar> \<le> 100"
    by blast
  have p: "list_all (\<lambda>g. 0 < frequency (gs_note g)) (strings standardTuning)"
    using standardTuning_positive by (simp only: list_all_iff)
  from p a b c d e show ?thesis
    by blast
qed

text \<open>
  C1. The tests of the matcher expect octave correction: \<open>halfE4 = 329.63 / 2\<close> is to be
  matched to string 1 (E4) with the doubled frequency. \<open>findClosestString\<close> has no second
  search: \<open>halfE4\<close> is inside the range, more than 100 cents from every string of the
  standard tuning, and the result is nothing, although the doubled frequency matches
  string 1, note E4, at 0 cents.
\<close>

theorem halfE4_not_octave_corrected:
  "GUITAR_FREQ_MIN \<le> halfE4 \<and> halfE4 \<le> GUITAR_FREQ_MAX
   \<and> getTuningById ''standard'' = Some standardTuning
   \<and> findClosestString halfE4 standardTuning = None
   \<and> (\<exists>r. findClosestString (2 * halfE4) standardTuning = Some r
         \<and> cs_stringNumber r = 1 \<and> cs_noteName r = ''E4'' \<and> centsOff r = 0)"
  using halfE4_in_range standardTuning_found halfE4_unmatched E4_matched
  by (intro conjI) simp_all


section \<open>Facts about status and advice\<close>

lemma str_includes_append: "str_includes (p @ sub @ q) sub"
proof (induction p)
  case Nil
  show ?case
  proof (cases "sub @ q")
    case Nil
    then show ?thesis by simp
  next
    case (Cons a list)
    have "prefix sub (sub @ q)"
      by (rule prefixI) simp
    with Cons show ?thesis by simp
  qed
next
  case (Cons c p)
  then show ?case by simp
qed

lemma single_match:
  assumes range: "GUITAR_FREQ_MIN \<le> f" "f \<le> GUITAR_FREQ_MAX"
    and d: "distinct (map stringNumber (strings tun))"
    and g0: "g0 \<in> set (strings tun)" "abs_cents f g0 \<le> 100"
    and far: "\<And>g. g \<in> set (strings tun) \<Longrightarrow> stringNumber g \<noteq> stringNumber g0
                \<Longrightarrow> 100 < abs_cents f g"
  shows "\<exists>r. findClosestString f tun = Some r
           \<and> cs_stringNumber r = stringNumber g0
           \<and> cs_noteName r = note_label (gs_note g0)
           \<and> centsOff r = of_int (js_round (calculateCents f (frequency (gs_note g0)) * 10)) / 10"
proof -
  from g0 have "findClosestString f tun \<noteq> None"
    using findClosestString_None_iff [OF range, of tun] by fastforce
  then obtain r where r: "findClosestString f tun = Some r"
    by auto
  from findClosestString_Some [OF r] obtain g where g: "g \<in> set (strings tun)"
    "cs_stringNumber r = stringNumber g" "cs_noteName r = note_label (gs_note g)"
    "abs_cents f g \<le> 100"
    by blast
  from g(1,4) far [of g] have "stringNumber g = stringNumber g0"
    by fastforce
  with d g(1) g0(1) have eq: "g = g0"
    by (auto simp: distinct_map inj_on_def)
  from findClosestString_centsOff [OF r d g(1)] g(2) eq r g(3) show ?thesis
    by simp
qed

lemma sharpA_bounds: "110 \<le> sharpA \<and> sharpA \<le> 112"
proof -
  let ?p = "2 powr (1 / 60) :: real"
  have p60: "?p ^ 60 = 2"
    by (simp add: powr_power)
  have "1 \<le> ?p"
    by (rule ge_one_powr_ge_zero) simp_all
  moreover have "?p \<le> 56 / 55"
  proof (rule power_le_imp_le_base [where n = 59])
    show "?p ^ Suc 59 \<le> (56 / 55) ^ Suc 59"
      using p60 by (simp add: power_divide divide_simps)
  qed simp
  ultimately show ?thesis
    by (simp add: sharpA_def)
qed

lemma sharpA_cents: "calculateCents sharpA 110 = 20"
  by (simp add: calculateCents_def sharpA_def)

lemma far_above_bound:
  assumes "frequency (gs_note g) = t" and "0 < t" and "0 < lo" and "lo \<le> d"
    and "2 * t ^ 12 < lo ^ 12"
  shows "100 < abs_cents d g"
proof -
  have "lo ^ 12 \<le> d ^ 12"
    using assms(3,4) by (intro power_mono) simp_all
  with assms(5) have "2 * t ^ 12 < d ^ 12"
    by linarith
  moreover have "0 < d"
    using assms(3,4) by linarith
  ultimately show ?thesis
    using assms(1,2) by (intro far_above [where t = t])
qed

lemma far_below_bound:
  assumes "frequency (gs_note g) = t" and "0 < t" and "0 < d" and "d \<le> hi"
    and "2 * hi ^ 12 < t ^ 12"
  shows "100 < abs_cents d g"
proof -
  have "d ^ 12 \<le> hi ^ 12"
    using assms(3,4) by (intro power_mono) simp_all
  with assms(5) have "2 * d ^ 12 < t ^ 12"
    by linarith
  then show ?thesis
    using assms(1,2,3) by (intro far_below [where t = t])
qed

lemma flatA_bounds: "108 \<le> flatA \<and> flatA \<le> 110"
proof -
  let ?p = "2 powr (1 / 60) :: real"
  have p60: "?p ^ 60 = 2"
    by (simp add: powr_power)
  have one: "1 \<le> ?p"
    by (rule ge_one_powr_ge_zero) simp_all
  have "?p \<le> 55 / 54"
  proof (rule power_le_imp_le_base [where n = 59])
    show "?p ^ Suc 59 \<le> (55 / 54) ^ Suc 59"
      using p60 by (simp add: power_divide divide_simps)
  qed simp
  then have le: "54 * ?p \<le> 55"
    by simp
  have pos: "0 < ?p"
    by simp
  have "2 powr (- 20 / 1200) = 1 / ?p"
    by (simp add: powr_minus_divide)
  then have eq: "flatA = 110 / ?p"
    by (simp add: flatA_def)
  have "108 \<le> 110 / ?p"
    using pos le by (simp add: pos_le_divide_eq)
  moreover have "110 / ?p \<le> 110"
    using pos one by (simp add: pos_divide_le_eq)
  ultimately show ?thesis
    unfolding eq by simp
qed

lemma flatA_cents: "calculateCents flatA 110 = - 20"
  by (simp add: calculateCents_def flatA_def)

text \<open>Between 108 and 112 Hz the only string of the standard tuning in reach is string 5.\<close>

lemma near_A2_far:
  assumes b: "108 \<le> d" "d \<le> 112"
    and g: "g \<in> set (strings standardTuning)" "stringNumber g \<noteq> 5"
  shows "100 < abs_cents d g"
proof -
  from b have pos: "0 < d" by simp
  from g consider
    "g = \<lparr>stringNumber = 6, gs_note = make_note ''E'' 2 40\<rparr>"
    | "g = \<lparr>stringNumber = 4, gs_note = make_note ''D'' 3 50\<rparr>"
    | "g = \<lparr>stringNumber = 3, gs_note = make_note ''G'' 3 55\<rparr>"
    | "g = \<lparr>stringNumber = 2, gs_note = make_note ''B'' 3 59\<rparr>"
    | "g = \<lparr>stringNumber = 1, gs_note = make_note ''E'' 4 64\<rparr>"
    unfolding standardTuning_strings by auto
  then show ?thesis
  proof cases
    case 1
    show ?thesis
      using b by (intro far_above_bound [where t = "82.41" and lo = 108])
        (simp_all add: 1 E2_frequency power_divide divide_simps)
  next
    case 2
    show ?thesis
      using b pos by (intro far_below_bound [where t = "146.83" and hi = 112])
        (simp_all add: 2 D3_frequency power_divide divide_simps)
  next
    case 3
    show ?thesis
      using b pos by (intro far_below_bound [where t = 196 and hi = 112])
        (simp_all add: 3 G3_frequency power_divide divide_simps)
  next
    case 4
    show ?thesis
      using b pos by (intro far_below_bound [where t = "246.94" and hi = 112])
        (simp_all add: 4 B3_frequency power_divide divide_simps)
  next
    case 5
    show ?thesis
      using b pos by (intro far_below_bound [where t = "329.63" and hi = 112])
        (simp_all add: 5 E4_frequency power_divide divide_simps)
  qed
qed

lemma A2_label: "note_label (make_note ''A'' 2 45) = ''A2''"
  by (simp add: note_label_def make_note_def show_int_def show_nat.simps [of 2])

lemma near_A2_matched:
  assumes b: "108 \<le> d" "d \<le> 112"
  shows "\<exists>r. findClosestString d standardTuning = Some r
           \<and> cs_stringNumber r = 5 \<and> cs_noteName r = ''A2''
           \<and> centsOff r = of_int (js_round (calculateCents d 110 * 10)) / 10"
proof -
  let ?s5 = "\<lparr>stringNumber = 5, gs_note = make_note ''A'' 2 45\<rparr>"
  have range: "GUITAR_FREQ_MIN \<le> d" "d \<le> GUITAR_FREQ_MAX"
    using b by (simp_all add: GUITAR_FREQ_MIN_def GUITAR_FREQ_MAX_def)
  have s5: "?s5 \<in> set (strings standardTuning)"
    by (simp add: standardTuning_strings)
  have "d ^ 12 \<le> 112 ^ 12" "108 ^ 12 \<le> d ^ 12"
    using b by (intro power_mono; simp)+
  then have "d ^ 12 \<le> 2 * 110 ^ 12 \<and> (110::real) ^ 12 \<le> 2 * d ^ 12"
    by simp
  then have "\<bar>calculateCents d 110\<bar> \<le> 100"
    using b abs_cents_le_100_iff [of d 110] by simp
  then have near: "abs_cents d ?s5 \<le> 100"
    by (simp add: abs_cents_def A2_frequency)
  have far: "100 < abs_cents d g"
    if "g \<in> set (strings standardTuning)" "stringNumber g \<noteq> stringNumber ?s5" for g
    using that near_A2_far [OF b, of g] by simp
  from single_match [OF range standardTuning_distinct s5 near far]
  show ?thesis
    by (simp add: A2_label A2_frequency)
qed

lemma sharpA_result:
  "tuningStatus (createPitchResult (Some sharpA) standardTuning) = Sharp
   \<and> \<not> inTune (createPitchResult (Some sharpA) standardTuning)
   \<and> advice (createPitchResult (Some sharpA) standardTuning)
       = ''String 5 (A2) is 20 cents sharp. Tune DOWN (loosen).''"
proof -
  have "108 \<le> sharpA" "sharpA \<le> 112"
    using sharpA_bounds by simp_all
  from near_A2_matched [OF this]
  obtain r where r: "findClosestString sharpA standardTuning = Some r"
    "cs_stringNumber r = 5" "cs_noteName r = ''A2''"
    "centsOff r = of_int (js_round (calculateCents sharpA 110 * 10)) / 10"
    by blast
  from r(4) have c: "centsOff r = 20"
    by (simp add: sharpA_cents js_round_def)
  have st: "getTuningStatus 20 = Sharp"
    by (simp add: getTuningStatus_def IN_TUNE_THRESHOLD_def)
  have adv: "generateAdvice Sharp 20 (Some 5) (Some ''A2'')
      = ''String 5 (A2) is 20 cents sharp. Tune DOWN (loosen).''"
    by (simp add: generateAdvice_def js_round_def show_int_def
        show_nat.simps [of 5] show_nat.simps [of 20] show_nat.simps [of 2])
  show ?thesis
    by (simp add: createPitchResult_def r(1,2,3) c st adv Let_def)
qed

lemma flatA_result:
  "tuningStatus (createPitchResult (Some flatA) standardTuning) = Flat
   \<and> \<not> inTune (createPitchResult (Some flatA) standardTuning)
   \<and> advice (createPitchResult (Some flatA) standardTuning)
       = ''String 5 (A2) is 20 cents flat. Tune UP (tighten).''"
proof -
  have "108 \<le> flatA" "flatA \<le> 112"
    using flatA_bounds by simp_all
  from near_A2_matched [OF this]
  obtain r where r: "findClosestString flatA standardTuning = Some r"
    "cs_stringNumber r = 5" "cs_noteName r = ''A2''"
    "centsOff r = of_int (js_round (calculateCents flatA 110 * 10)) / 10"
    by blast
  from r(4) have c: "centsOff r = - 20"
    by (simp add: flatA_cents js_round_def)
  have st: "getTuningStatus (- 20) = Flat"
    by (simp add: getTuningStatus_def IN_TUNE_THRESHOLD_def)
  have adv: "generateAdvice Flat (- 20) (Some 5) (Some ''A2'')
      = ''String 5 (A2) is 20 cents flat. Tune UP (tighten).''"
    by (simp add: generateAdvice_def js_round_def show_int_def
        show_nat.simps [of 5] show_nat.simps [of 20] show_nat.simps [of 2])
  show ?thesis
    by (simp add: createPitchResult_def r(1,2,3) c st adv Let_def)
qed

text \<open>
  C9. \<open>getTuningStatus\<close> gives in-tune for a magnitude of at most 5 cents, flat below
  \<open>-5\<close> and sharp above 5. The advice for a flat string ends in "Tune UP (tighten)." and
  the advice for a sharp string in "Tune DOWN (loosen)."; both begin with the string's number
  and its note. For every frequency that \<open>findClosestString\<close> matches, the pitch result
  has the status of the rounded cents, and its advice names the string and the note and
  gives the direction that belongs to the status.
\<close>

theorem classify_and_advice:
  "(\<bar>c\<bar> \<le> 5 \<longrightarrow> getTuningStatus c = InTune)
   \<and> (c < - 5 \<longrightarrow> getTuningStatus c = Flat)
   \<and> (5 < c \<longrightarrow> getTuningStatus c = Sharp)
   \<and> generateAdvice Flat c (Some n) (Some nm)
       = ''String '' @ show_int n @ '' ('' @ nm @ '') is '' @ show_int \<bar>js_round c\<bar>
         @ '' cents flat. Tune UP (tighten).''
   \<and> generateAdvice Sharp c (Some n) (Some nm)
       = ''String '' @ show_int n @ '' ('' @ nm @ '') is '' @ show_int \<bar>js_round c\<bar>
         @ '' cents sharp. Tune DOWN (loosen).''
   \<and> (\<forall>r. findClosestString f tun = Some r \<longrightarrow>
         tuningStatus (createPitchResult (Some f) tun) = getTuningStatus (centsOff r)
       \<and> closestString (createPitchResult (Some f) tun) = Some (cs_stringNumber r)
       \<and> noteName (createPitchResult (Some f) tun) = Some (cs_noteName r)
       \<and> str_includes (advice (createPitchResult (Some f) tun))
            (''String '' @ show_int (cs_stringNumber r) @ '' ('' @ cs_noteName r @ '')'')
       \<and> (tuningStatus (createPitchResult (Some f) tun) = Flat \<longrightarrow>
            str_includes (advice (createPitchResult (Some f) tun)) ''Tune UP (tighten)'')
       \<and> (tuningStatus (createPitchResult (Some f) tun) = Sharp \<longrightarrow>
            str_includes (advice (createPitchResult (Some f) tun)) ''Tune DOWN (loosen)''))"
proof -
  have s1: "\<bar>c\<bar> \<le> 5 \<longrightarrow> getTuningStatus c = InTune"
    by (simp add: getTuningStatus_def IN_TUNE_THRESHOLD_def)
  have s2: "c < - 5 \<longrightarrow> getTuningStatus c = Flat"
    by (simp add: getTuningStatus_def IN_TUNE_THRESHOLD_def)
  have s3: "5 < c \<longrightarrow> getTuningStatus c = Sharp"
    by (simp add: getTuningStatus_def IN_TUNE_THRESHOLD_def)
  have a1: "generateAdvice Flat c (Some n) (Some nm)
       = ''String '' @ show_int n @ '' ('' @ nm @ '') is '' @ show_int \<bar>js_round c\<bar>
         @ '' cents flat. Tune UP (tighten).''"
    by (simp add: generateAdvice_def Let_def)
  have a2: "generateAdvice Sharp c (Some n) (Some nm)
       = ''String '' @ show_int n @ '' ('' @ nm @ '') is '' @ show_int \<bar>js_round c\<bar>
         @ '' cents sharp. Tune DOWN (loosen).''"
    by (simp add: generateAdvice_def Let_def)
  have m: "tuningStatus (createPitchResult (Some f) tun) = getTuningStatus (centsOff r)
       \<and> closestString (createPitchResult (Some f) tun) = Some (cs_stringNumber r)
       \<and> noteName (createPitchResult (Some f) tun) = Some (cs_noteName r)
       \<and> str_includes (advice (createPitchResult (Some f) tun))
            (''String '' @ show_int (cs_stringNumber r) @ '' ('' @ cs_noteName r @ '')'')
       \<and> (tuningStatus (createPitchResult (Some f) tun) = Flat \<longrightarrow>
            str_includes (advice (createPitchResult (Some f) tun)) ''Tune UP (tighten)'')
       \<and> (tuningStatus (createPitchResult (Some f) tun) = Sharp \<longrightarrow>
            str_includes (advice (createPitchResult (Some f) tun)) ''Tune DOWN (loosen)'')"
    if r: "findClosestString f tun = Some r" for r
  proof -
    let ?p = "createPitchResult (Some f) tun"
    let ?label = "''String '' @ show_int (cs_stringNumber r) @ '' ('' @ cs_noteName r @ '')''"
    let ?n = "show_int \<bar>js_round (centsOff r)\<bar>"
    have st: "tuningStatus ?p = getTuningStatus (centsOff r)"
      and cs: "closestString ?p = Some (cs_stringNumber r)"
      and nn: "noteName ?p = Some (cs_noteName r)"
      and ad: "advice ?p = generateAdvice (tuningStatus ?p) (centsOff r)
                 (Some (cs_stringNumber r)) (Some (cs_noteName r))"
      by (simp_all add: createPitchResult_def r Let_def)
    have forms: "advice ?p = ?label @ '' is in tune!'' @ []
        \<or> advice ?p = (?label @ '' is '' @ ?n @ '' cents flat. '') @ ''Tune UP (tighten)'' @ ''.''
        \<or> advice ?p = (?label @ '' is '' @ ?n @ '' cents sharp. '') @ ''Tune DOWN (loosen)'' @ ''.''"
      unfolding ad by (cases "tuningStatus ?p") (simp_all add: generateAdvice_def Let_def)
    have lab: "str_includes (advice ?p) ?label"
    proof -
      from ad have "\<exists>q. advice ?p = [] @ ?label @ q"
        by (cases "tuningStatus ?p") (simp_all add: generateAdvice_def Let_def)
      then obtain q where "advice ?p = [] @ ?label @ q" ..
      then show ?thesis
        using str_includes_append [of "[]" ?label q] by simp
    qed
    have up: "str_includes (advice ?p) ''Tune UP (tighten)''" if "tuningStatus ?p = Flat"
    proof -
      from ad that have "advice ?p
          = (?label @ '' is '' @ ?n @ '' cents flat. '') @ ''Tune UP (tighten)'' @ ''.''"
        by (simp add: generateAdvice_def Let_def)
      then show ?thesis
        by (simp only: str_includes_append)
    qed
    have down: "str_includes (advice ?p) ''Tune DOWN (loosen)''" if "tuningStatus ?p = Sharp"
    proof -
      from ad that have "advice ?p
          = (?label @ '' is '' @ ?n @ '' cents sharp. '') @ ''Tune DOWN (loosen)'' @ ''.''"
        by (simp add: generateAdvice_def Let_def)
      then show ?thesis
        by (simp only: str_includes_append)
    qed
    from st cs nn lab up down show ?thesis
      by blast
  qed
  from s1 s2 s3 a1 a2 m show ?thesis
    by blast
qed

theorem classify_and_advice_witness:
  "getTuningStatus 3 = InTune \<and> getTuningStatus (- 20) = Flat \<and> getTuningStatus 20 = Sharp
   \<and> (\<exists>r. findClosestString sharpA standardTuning = Some r \<and> cs_stringNumber r = 5)
   \<and> tuningStatus (createPitchResult (Some sharpA) standardTuning) = Sharp
   \<and> str_includes (advice (createPitchResult (Some sharpA) standardTuning))
         ''Tune DOWN (loosen)''
   \<and> (\<exists>r. findClosestString flatA standardTuning = Some r \<and> cs_stringNumber r = 5)
   \<and> tuningStatus (createPitchResult (Some flatA) standardTuning) = Flat
   \<and> str_includes (advice (createPitchResult (Some flatA) standardTuning))
         ''Tune UP (tighten)''"
proof -
  have s1: "getTuningStatus 3 = InTune"
    using classify_and_advice [where c = 3] by simp
  have s2: "getTuningStatus (- 20) = Flat"
    using classify_and_advice [where c = "- 20"] by simp
  have s3: "getTuningStatus 20 = Sharp"
    using classify_and_advice [where c = 20] by simp
  have "108 \<le> sharpA" "sharpA \<le> 112"
    using sharpA_bounds by simp_all
  from near_A2_matched [OF this]
  obtain r where r: "findClosestString sharpA standardTuning = Some r" "cs_stringNumber r = 5"
    by blast
  have "108 \<le> flatA" "flatA \<le> 112"
    using flatA_bounds by simp_all
  from near_A2_matched [OF this]
  obtain q where q: "findClosestString flatA standardTuning = Some q" "cs_stringNumber q = 5"
    by blast
  have down: "str_includes (advice (createPitchResult (Some sharpA) standardTuning))
      ''Tune DOWN (loosen)''"
    using classify_and_advice [where f = sharpA and tun = standardTuning] r(1) sharpA_result
    by blast
  have up: "str_includes (advice (createPitchResult (Some flatA) standardTuning))
      ''Tune UP (tighten)''"
    using classify_and_advice [where f = flatA and tun = standardTuning] q(1) flatA_result
    by blast
  from s1 s2 s3 r q down up sharpA_result flatA_result show ?thesis
    by blast
qed


section \<open>Facts about the pitch estimator\<close>

lemma fold_squares_replicate:
  "fold (\<lambda>x sum. sum + x * x) (replicate n a) s = s + real n * (a * a)"
  by (induction n arbitrary: s) (simp_all add: algebra_simps)

lemma calculateRMS_replicate:
  "0 < n \<Longrightarrow> calculateRMS (replicate n a) = \<bar>a\<bar>"
  unfolding calculateRMS_def fold_squares_replicate by simp

lemma process_window:
  assumes "detectPitch p = Some detect"
    and "bufferSize p \<le> length (accumulatedSamples p @ samples)"
  shows "process p samples =
     (let newBuffer = accumulatedSamples p @ samples;
          analysisBuffer = slice_last (bufferSize p) newBuffer;
          p2 = p\<lparr>accumulatedSamples := slice_last (bufferSize p div 2) newBuffer\<rparr>
      in if calculateRMS analysisBuffer < rmsThreshold p
         then Inr (None, p2\<lparr>lastFrequency := None\<rparr>)
         else case detect analysisBuffer of
                Some fr \<Rightarrow> if GUITAR_FREQ_MIN \<le> fr \<and> fr \<le> GUITAR_FREQ_MAX
                           then Inr (Some fr, p2\<lparr>lastFrequency := Some fr\<rparr>)
                           else Inr (lastFrequency p, p2)
              | None \<Rightarrow> Inr (lastFrequency p, p2))"
  using assms by (simp add: process_def Let_def split: option.splits)

text \<open>
  C6. An initialised estimator with a positive window size meets a block that fills the
  window. If the RMS of the window is below the threshold, \<open>process\<close> returns no
  frequency, the remembered frequency is gone (\<open>getLastFrequency\<close> gives nothing) and a
  following block that does not fill the window returns nothing as well. If the RMS
  passes and the detector gives nothing or a frequency outside 70 to 1500 Hz, \<open>process\<close>
  returns the frequency remembered before, and it stays remembered.
\<close>

theorem process_gate_and_misfire:
  assumes "detectPitch p = Some detect"
    and "0 < bufferSize p"
    and "bufferSize p \<le> length (accumulatedSamples p @ samples)"
  shows "(calculateRMS (slice_last (bufferSize p) (accumulatedSamples p @ samples))
            < rmsThreshold p \<longrightarrow>
          (\<exists>p'. process p samples = Inr (None, p') \<and> getLastFrequency p' = None
             \<and> (\<forall>more. length (accumulatedSamples p' @ more) < bufferSize p' \<longrightarrow>
                   (\<exists>p''. process p' more = Inr (None, p'')))))
   \<and> (\<not> calculateRMS (slice_last (bufferSize p) (accumulatedSamples p @ samples))
            < rmsThreshold p
        \<and> (case detect (slice_last (bufferSize p) (accumulatedSamples p @ samples)) of
              None \<Rightarrow> True
            | Some fr \<Rightarrow> fr < 70 \<or> 1500 < fr) \<longrightarrow>
          (\<exists>p'. process p samples = Inr (lastFrequency p, p')
             \<and> getLastFrequency p' = lastFrequency p))"
proof (intro conjI impI)
  let ?w = "slice_last (bufferSize p) (accumulatedSamples p @ samples)"
  let ?p2 = "p\<lparr>accumulatedSamples := slice_last (bufferSize p div 2) (accumulatedSamples p @ samples)\<rparr>"
  note pw = process_window [OF assms(1,3)]
  {
    assume quiet: "calculateRMS ?w < rmsThreshold p"
    let ?p' = "?p2\<lparr>lastFrequency := None\<rparr>"
    have 1: "process p samples = Inr (None, ?p')"
      using quiet by (simp add: pw Let_def)
    have 2: "getLastFrequency ?p' = None"
      by (simp add: getLastFrequency_def)
    have 3: "\<exists>p''. process ?p' more = Inr (None, p'')"
      if "length (accumulatedSamples ?p' @ more) < bufferSize ?p'" for more
      using that assms(1) by (simp add: process_def Let_def)
    from 1 2 3 show "\<exists>p'. process p samples = Inr (None, p') \<and> getLastFrequency p' = None
             \<and> (\<forall>more. length (accumulatedSamples p' @ more) < bufferSize p' \<longrightarrow>
                   (\<exists>p''. process p' more = Inr (None, p'')))"
      by blast
  }
  {
    assume loud: "\<not> calculateRMS ?w < rmsThreshold p
        \<and> (case detect ?w of None \<Rightarrow> True | Some fr \<Rightarrow> fr < 70 \<or> 1500 < fr)"
    have "process p samples = Inr (lastFrequency p, ?p2)"
      using loud
      by (auto simp: pw Let_def GUITAR_FREQ_MIN_def GUITAR_FREQ_MAX_def split: option.splits)
    moreover have "getLastFrequency ?p2 = lastFrequency p"
      by (simp add: getLastFrequency_def)
    ultimately show "\<exists>p'. process p samples = Inr (lastFrequency p, p')
             \<and> getLastFrequency p' = lastFrequency p"
      by blast
  }
qed

lemma slice_last_replicate:
  "0 < n \<Longrightarrow> slice_last n (replicate m a) = replicate (min m n) a"
  by (auto simp: slice_last_def min_def)

lemma listening_fields:
  "detectPitch listening = Some (demo_detector 44100)" "bufferSize listening = 4096"
  "rmsThreshold listening = 0.01" "accumulatedSamples listening = []"
  "lastFrequency listening = None"
  by (simp_all add: listening_def initialize_def new_PitchDetectorProcessor_def)

lemma listening_hears_A:
  "process listening (replicate 4096 (1 / 2)) = Inr (Some 110, heardA)"
  "detectPitch heardA = Some (demo_detector 44100)" "bufferSize heardA = 4096"
  "rmsThreshold heardA = 0.01" "accumulatedSamples heardA = replicate 2048 (1 / 2)"
  "lastFrequency heardA = Some 110"
proof -
  have p: "process listening (replicate 4096 (1 / 2)) =
      Inr (Some 110, listening\<lparr>accumulatedSamples := replicate 2048 (1 / 2),
                                 lastFrequency := Some 110\<rparr>)"
    by (simp add: process_window [where detect = "demo_detector 44100"] listening_fields
        slice_last_replicate calculateRMS_replicate demo_detector_def
        GUITAR_FREQ_MIN_def GUITAR_FREQ_MAX_def)
  then have h: "heardA = listening\<lparr>accumulatedSamples := replicate 2048 (1 / 2),
                                 lastFrequency := Some 110\<rparr>"
    by (simp add: heardA_def)
  show "process listening (replicate 4096 (1 / 2)) = Inr (Some 110, heardA)"
    by (simp only: p h)
  show "detectPitch heardA = Some (demo_detector 44100)" "bufferSize heardA = 4096"
    "rmsThreshold heardA = 0.01" "accumulatedSamples heardA = replicate 2048 (1 / 2)"
    "lastFrequency heardA = Some 110"
    by (simp_all add: h listening_fields)
qed

lemma heardA_window:
  "slice_last (bufferSize heardA) (accumulatedSamples heardA @ replicate 4096 a)
     = replicate 4096 a"
  by (simp add: listening_hears_A slice_last_def)

theorem process_gate_and_misfire_witness:
  "detectPitch heardA = Some (demo_detector 44100) \<and> 0 < bufferSize heardA
   \<and> bufferSize heardA \<le> length (accumulatedSamples heardA @ replicate 4096 (0::real))
   \<and> lastFrequency heardA = Some 110
   \<and> (\<exists>p'. process heardA (replicate 4096 0) = Inr (None, p') \<and> getLastFrequency p' = None)
   \<and> (\<exists>p'. process heardA (replicate 4096 1) = Inr (Some 110, p')
          \<and> getLastFrequency p' = Some 110)"
proof -
  have d: "detectPitch heardA = Some (demo_detector 44100)"
    and b: "0 < bufferSize heardA"
    and l: "lastFrequency heardA = Some 110"
    by (simp_all add: listening_hears_A)
  have n: "bufferSize heardA \<le> length (accumulatedSamples heardA @ replicate 4096 a)" for a
    by (simp add: listening_hears_A)
  have quiet: "calculateRMS (slice_last (bufferSize heardA)
        (accumulatedSamples heardA @ replicate 4096 0)) < rmsThreshold heardA"
    unfolding heardA_window by (simp add: calculateRMS_replicate listening_hears_A)
  have loud: "\<not> calculateRMS (slice_last (bufferSize heardA)
        (accumulatedSamples heardA @ replicate 4096 1)) < rmsThreshold heardA"
    unfolding heardA_window by (simp add: calculateRMS_replicate listening_hears_A)
  have misfire: "demo_detector 44100 (slice_last (bufferSize heardA)
        (accumulatedSamples heardA @ replicate 4096 1)) = Some 2000"
    unfolding heardA_window by (simp add: demo_detector_def)
  have 1: "\<exists>p'. process heardA (replicate 4096 0) = Inr (None, p') \<and> getLastFrequency p' = None"
    using process_gate_and_misfire [OF d b n [of 0]] quiet by blast
  have 2: "\<exists>p'. process heardA (replicate 4096 1) = Inr (Some 110, p')
          \<and> getLastFrequency p' = Some 110"
    using process_gate_and_misfire [OF d b n [of 1]] loud misfire l by simp
  from d b n [of 0] l 1 2 show ?thesis
    by blast
qed


section \<open>Facts about the session\<close>

lemma started_eq:
  "started = new_TuningSessionManager
     \<lparr>mic := Some \<lparr>isRunning = True\<rparr>, pitchDetector := Some listening,
      currentTuning := Some standardTuning,
      session := Some \<lparr>active = True, tuningId = ''standard'', tuningName = ''Standard'',
                       startedAt = 1000\<rparr>\<rparr>"
proof -
  have i: "preset_id standardTuning = ''standard''"
    and n: "preset_name standardTuning = ''Standard''"
    by (simp_all add: standardTuning_def getTuningById_def TUNING_PRESETS_def)
  have "\<not> session_active new_TuningSessionManager"
    by (simp add: session_active_def new_TuningSessionManager_def)
  then show ?thesis
    by (simp add: started_def startSession_def standardTuning_found i n listening_def)
qed

lemma started_active: "session_active started"
  by (simp add: started_eq session_active_def new_TuningSessionManager_def)

lemma started_tuningName: "tuningName (the (session started)) = ''Standard''"
  by (simp add: started_eq)

lemma A2_reading:
  "closestString (createPitchResult (Some 110) standardTuning) = Some 5"
  "inTune (createPitchResult (Some 110) standardTuning)"
proof -
  from near_A2_matched [of 110]
  obtain r where r: "findClosestString 110 standardTuning = Some r" "cs_stringNumber r = 5"
    "centsOff r = of_int (js_round (calculateCents 110 110 * 10)) / 10"
    by auto
  from r(3) have c: "centsOff r = 0"
    by (simp add: calculateCents_def js_round_def)
  show "closestString (createPitchResult (Some 110) standardTuning) = Some 5"
    by (simp add: createPitchResult_def r(1,2) Let_def)
  show "inTune (createPitchResult (Some 110) standardTuning)"
    by (simp add: createPitchResult_def r(1) c Let_def getTuningStatus_def IN_TUNE_THRESHOLD_def)
qed

lemma played_eq:
  "played = started
     \<lparr>pitchDetector := Some heardA,
      lastPitchResult := Some (createPitchResult (Some 110) standardTuning),
      stableString := Some 5, stableStartTime := 2000\<rparr>"
  by (simp add: played_def onAudio_def started_eq new_TuningSessionManager_def
      listening_hears_A(1) Let_def A2_reading)

lemma played_active: "session_active played"
  by (simp add: played_eq started_eq session_active_def new_TuningSessionManager_def)

text \<open>
  C5. Starting while a session is active fails with "A tuning session is already active."
  and an error text that names the tuning of the active session, and the manager is
  unchanged. Stopping, or waiting for a pitch, while no session is active fails with
  "No active tuning session ..." whatever events follow, and the manager is unchanged.
\<close>

theorem state_errors_leave_session:
  "(session_active m \<longrightarrow>
      startSession tid now env m =
        (\<lparr>success = False, message = ''A tuning session is already active.'', tuning = None,
          error = Some (''Stop the current session first. Currently tuning to: ''
                        @ tuningName (the (session m)))\<rparr>, m))
   \<and> (\<not> session_active m \<longrightarrow>
      stopSession m =
        (\<lparr>stop_success = False, stop_message = ''No active tuning session'',
          stop_error = Some ''Call start_tuning first to begin a session.''\<rparr>, m))
   \<and> (\<not> session_active m \<longrightarrow>
      waitForPitch timeoutMs now es m =
        (Some (WaitError ''No active tuning session. Call start_tuning first.''), m))"
  by (simp add: startSession_def stopSession_def waitForPitch_def)

theorem state_errors_leave_session_witness:
  "session_active started
   \<and> startSession ''drop-d'' 5000 (Ready demo_detector) started =
        (\<lparr>success = False, message = ''A tuning session is already active.'', tuning = None,
          error = Some ''Stop the current session first. Currently tuning to: Standard''\<rparr>,
         started)
   \<and> \<not> session_active new_TuningSessionManager
   \<and> stopSession new_TuningSessionManager =
        (\<lparr>stop_success = False, stop_message = ''No active tuning session'',
          stop_error = Some ''Call start_tuning first to begin a session.''\<rparr>,
         new_TuningSessionManager)
   \<and> waitForPitch 30000 5000 [Audio 5010 (replicate 4096 (1 / 2)), Tick 5050]
        new_TuningSessionManager =
        (Some (WaitError ''No active tuning session. Call start_tuning first.''),
         new_TuningSessionManager)"
proof -
  have idle: "\<not> session_active new_TuningSessionManager"
    by (simp add: session_active_def new_TuningSessionManager_def)
  have 1: "startSession ''drop-d'' 5000 (Ready demo_detector) started =
        (\<lparr>success = False, message = ''A tuning session is already active.'', tuning = None,
          error = Some ''Stop the current session first. Currently tuning to: Standard''\<rparr>,
         started)"
    using state_errors_leave_session [where m = started and tid = "''drop-d''" and now = 5000
        and env = "Ready demo_detector"] started_active
    by (simp add: started_tuningName)
  have 2: "stopSession new_TuningSessionManager =
        (\<lparr>stop_success = False, stop_message = ''No active tuning session'',
          stop_error = Some ''Call start_tuning first to begin a session.''\<rparr>,
         new_TuningSessionManager)"
    using state_errors_leave_session [where m = new_TuningSessionManager] idle by blast
  have 3: "waitForPitch 30000 5000 [Audio 5010 (replicate 4096 (1 / 2)), Tick 5050]
        new_TuningSessionManager =
        (Some (WaitError ''No active tuning session. Call start_tuning first.''),
         new_TuningSessionManager)"
    using state_errors_leave_session [where m = new_TuningSessionManager] idle by blast
  from started_active idle 1 2 3 show ?thesis
    by blast
qed

text \<open>
  C2 (as the code has it). For every active session \<open>stopSession\<close> succeeds, with a
  message that names the tuning that was active; afterwards the microphone and the
  estimator are released, and the session record, the current tuning, the cached pitch
  result and the set of tuned strings are cleared. The stability tracker is not among the
  things \<open>cleanup\<close> clears: the held string and its start time are as before.
\<close>

theorem stopSession_releases_and_clears:
  assumes "session_active m"
  shows "stop_success (fst (stopSession m))
   \<and> stop_message (fst (stopSession m))
       = ''Stopped tuning session for '' @ tuningName (the (session m))
         @ ''. Microphone released.''
   \<and> stop_error (fst (stopSession m)) = None
   \<and> mic (snd (stopSession m)) = None
   \<and> pitchDetector (snd (stopSession m)) = None
   \<and> session (snd (stopSession m)) = None
   \<and> currentTuning (snd (stopSession m)) = None
   \<and> lastPitchResult (snd (stopSession m)) = None
   \<and> tunedStrings (snd (stopSession m)) = []
   \<and> \<not> session_active (snd (stopSession m))
   \<and> stableString (snd (stopSession m)) = stableString m
   \<and> stableStartTime (snd (stopSession m)) = stableStartTime m"
  using assms
  by (simp add: stopSession_def cleanup_def Let_def session_active_def split: option.splits)

text \<open>
  C2 as stated fails: after a session has heard an A on string 5 at clock 2000,
  \<open>stopSession\<close> succeeds and the tracker still holds string 5 since 2000.
\<close>

theorem stopSession_keeps_tracker:
  "session_active played
   \<and> stop_success (fst (stopSession played))
   \<and> stableString played = Some 5 \<and> stableStartTime played = 2000
   \<and> stableString (snd (stopSession played)) = Some 5
   \<and> stableStartTime (snd (stopSession played)) = 2000"
  using played_active
  by (simp add: stopSession_def cleanup_def Let_def played_eq split: option.splits)

theorem stopSession_releases_and_clears_witness:
  "session_active played
   \<and> stop_message (fst (stopSession played))
       = ''Stopped tuning session for Standard. Microphone released.''
   \<and> lastPitchResult played \<noteq> None
   \<and> mic played \<noteq> None \<and> pitchDetector played \<noteq> None
   \<and> mic (snd (stopSession played)) = None
   \<and> pitchDetector (snd (stopSession played)) = None
   \<and> session (snd (stopSession played)) = None
   \<and> lastPitchResult (snd (stopSession played)) = None
   \<and> tunedStrings (snd (stopSession played)) = []"
proof -
  have a: "lastPitchResult played \<noteq> None" "mic played \<noteq> None" "pitchDetector played \<noteq> None"
    "tuningName (the (session played)) = ''Standard''"
    by (simp_all add: played_eq started_eq new_TuningSessionManager_def)
  from stopSession_releases_and_clears [OF played_active] a played_active show ?thesis
    by simp
qed


section \<open>Facts about waiting for a stable pitch\<close>

lemma current_run_snoc_same:
  "current_run (rs @ [(t, Some s)]) s = current_run rs s @ [(t, Some s)]"
  by (simp add: current_run_def)

lemma current_run_snoc_other:
  "c \<noteq> Some s \<Longrightarrow> current_run (rs @ [(t, c)]) s = []"
  by (simp add: current_run_def)

lemma current_run_last:
  "rs \<noteq> [] \<Longrightarrow> snd (last rs) = Some s \<Longrightarrow> current_run rs s \<noteq> []"
  by (cases rs rule: rev_cases) (auto simp: current_run_def)

lemma current_run_not_last:
  "rs \<noteq> [] \<Longrightarrow> snd (last rs) \<noteq> Some s \<Longrightarrow> current_run rs s = []"
  by (cases rs rule: rev_cases) (auto simp: current_run_def)

lemma current_run_Nil: "current_run [] s = []"
  by (simp add: current_run_def)

lemma current_run_subset: "set (current_run rs s) \<subseteq> set rs"
  unfolding current_run_def using set_takeWhileD by fastforce

lemma current_run_all: "x \<in> set (current_run rs s) \<Longrightarrow> snd x = Some s"
  unfolding current_run_def using set_takeWhileD by fastforce

text \<open>What one run of the audio handler does to the manager.\<close>

lemma onAudio_idle:
  "pitchDetector m = None \<or> currentTuning m = None \<Longrightarrow> onAudio now samples m = Inr m"
  by (auto simp: onAudio_def split: option.splits)

lemma onAudio_heard:
  assumes "onAudio now samples m = Inr m'"
    and "pitchDetector m \<noteq> None" and "currentTuning m \<noteq> None"
  shows "\<exists>r. lastPitchResult m' = Some r \<and> stableString m' = closestString r
     \<and> stableStartTime m' =
         (if closestString r = None then 0
          else if closestString r = stableString m then stableStartTime m else now)
     \<and> session m' = session m \<and> tunedStrings m' = tunedStrings m
     \<and> currentTuning m' = currentTuning m \<and> pitchDetector m' \<noteq> None"
  using assms
  by (auto simp: onAudio_def Let_def split: option.splits sum.splits prod.splits if_splits)

lemma tracker_inv_heard:
  assumes inv: "tracker_inv m rs"
    and a: "onAudio now samples m = Inr m'"
    and p: "pitchDetector m \<noteq> None" "currentTuning m \<noteq> None"
  shows "tracker_inv m' (rs @ [(now, closestString (the (lastPitchResult m')))])"
proof -
  from onAudio_heard [OF a p] obtain r where r: "lastPitchResult m' = Some r"
    "stableString m' = closestString r"
    "stableStartTime m' =
         (if closestString r = None then 0
          else if closestString r = stableString m then stableStartTime m else now)"
    by blast
  show ?thesis
  proof (cases "closestString r")
    case None
    with r show ?thesis
      by (simp add: tracker_inv_def)
  next
    case (Some s)
    show ?thesis
    proof (cases "stableString m = Some s")
      case True
      with inv have "rs \<noteq> []" "snd (last rs) = Some s"
        "stableStartTime m = fst (hd (current_run rs s))"
        by (auto simp: tracker_inv_def split: if_splits)
      moreover from this have "current_run rs s \<noteq> []"
        by (intro current_run_last)
      ultimately show ?thesis
        using r Some True by (simp add: tracker_inv_def current_run_snoc_same)
    next
      case False
      have "current_run rs s = []"
      proof (cases "rs = []")
        case True
        then show ?thesis by (simp add: current_run_Nil)
      next
        case ne: False
        with inv False have "snd (last rs) \<noteq> Some s"
          by (auto simp: tracker_inv_def)
        with ne show ?thesis by (intro current_run_not_last)
      qed
      then show ?thesis
        using r Some False by (simp add: tracker_inv_def current_run_snoc_same)
    qed
  qed
qed

lemma tracker_inv_stop: "tracker_inv m rs \<Longrightarrow> tracker_inv (snd (stopSession m)) rs"
  by (simp add: tracker_inv_def stopSession_def cleanup_def Let_def split: option.splits)

lemma checkStability_pending: "checkStability st to t m = (None, m') \<Longrightarrow> m' = m"
  by (auto simp: checkStability_def Let_def split: if_splits)

lemma wait_loop_tracker:
  "wait_loop st to es m = (None, mk) \<Longrightarrow> tracker_inv m rs
     \<Longrightarrow> tracker_inv mk (rs @ readings es m)"
proof (induction st to es m arbitrary: rs rule: wait_loop.induct)
  case (1 st to m)
  then show ?case by simp
next
  case (2 st to now samples es m)
  show ?case
  proof (cases "onAudio now samples m")
    case (Inl e)
    with "2.prems" "2.IH"(1) [OF Inl, of rs] show ?thesis by simp
  next
    case (Inr m')
    show ?thesis
    proof (cases "pitchDetector m \<noteq> None \<and> currentTuning m \<noteq> None")
      case True
      let ?x = "(now, closestString (the (lastPitchResult m')))"
      from True have i: "tracker_inv m' (rs @ [?x])"
        using tracker_inv_heard [OF "2.prems"(2) Inr] by simp
      from "2.prems"(1) Inr have w: "wait_loop st to es m' = (None, mk)"
        by simp
      from "2.IH"(2) [OF Inr w i] have "tracker_inv mk ((rs @ [?x]) @ readings es m')" .
      then show ?thesis
        using Inr True by simp
    next
      case False
      then have "m' = m"
        using onAudio_idle [of m now samples] Inr by auto
      with "2.prems" Inr "2.IH"(2) [OF Inr, of rs] have "tracker_inv mk (rs @ readings es m')"
        by simp
      moreover from False Inr
      have "readings (Audio now samples # es) m = readings es m'"
        by auto
      ultimately show ?thesis
        by simp
    qed
  qed
next
  case (3 st to es m)
  from "3.prems" "3.IH" [of "rs"] tracker_inv_stop [of m rs] show ?case by simp
next
  case (4 st to now es m)
  from "4.prems"(1) obtain m1 where c: "checkStability st to now m = (None, m1)"
    and w: "wait_loop st to es m1 = (None, mk)"
    by (auto split: prod.splits option.splits)
  from checkStability_pending [OF c] have "m1 = m" .
  with "4.IH" [of None m1 rs] c w "4.prems"(2) show ?case by simp
qed

lemma wait_loop_resolves:
  "wait_loop st to es m = (Some r, m') \<Longrightarrow>
     \<exists>es1 t es2 mk. es = es1 @ Tick t # es2 \<and> wait_loop st to es1 m = (None, mk)
        \<and> checkStability st to t mk = (Some r, m')"
proof (induction st to es m rule: wait_loop.induct)
  case (1 st to m)
  then show ?case by simp
next
  case (2 st to now samples es m)
  show ?case
  proof (cases "onAudio now samples m")
    case (Inl e)
    with "2.prems" "2.IH"(1) [OF Inl] obtain es1 t es2 mk where
      "es = es1 @ Tick t # es2" "wait_loop st to es1 m = (None, mk)"
      "checkStability st to t mk = (Some r, m')"
      by auto
    with Inl have "Audio now samples # es = (Audio now samples # es1) @ Tick t # es2
        \<and> wait_loop st to (Audio now samples # es1) m = (None, mk)
        \<and> checkStability st to t mk = (Some r, m')"
      by simp
    then show ?thesis by blast
  next
    case (Inr m1)
    with "2.prems" "2.IH"(2) [OF Inr] obtain es1 t es2 mk where
      "es = es1 @ Tick t # es2" "wait_loop st to es1 m1 = (None, mk)"
      "checkStability st to t mk = (Some r, m')"
      by auto
    with Inr have "Audio now samples # es = (Audio now samples # es1) @ Tick t # es2
        \<and> wait_loop st to (Audio now samples # es1) m = (None, mk)
        \<and> checkStability st to t mk = (Some r, m')"
      by simp
    then show ?thesis by blast
  qed
next
  case (3 st to es m)
  with "3.IH" obtain es1 t es2 mk where
    "es = es1 @ Tick t # es2" "wait_loop st to es1 (snd (stopSession m)) = (None, mk)"
    "checkStability st to t mk = (Some r, m')"
    by auto
  then have "Stop # es = (Stop # es1) @ Tick t # es2
      \<and> wait_loop st to (Stop # es1) m = (None, mk)
      \<and> checkStability st to t mk = (Some r, m')"
    by simp
  then show ?case by blast
next
  case (4 st to now es m)
  show ?case
  proof (cases "fst (checkStability st to now m)")
    case (Some r0)
    with "4.prems" have "checkStability st to now m = (Some r, m')"
      by (auto split: prod.splits option.splits)
    then have "Tick now # es = [] @ Tick now # es \<and> wait_loop st to [] m = (None, m)
        \<and> checkStability st to now m = (Some r, m')"
      by simp
    then show ?thesis by blast
  next
    case None
    then obtain m1 where c: "checkStability st to now m = (None, m1)"
      by (cases "checkStability st to now m") auto
    with "4.prems" have w: "wait_loop st to es m1 = (Some r, m')"
      by simp
    from checkStability_pending [OF c] have m1: "m1 = m" .
    from "4.IH" [of None m1] c w obtain es1 t es2 mk where
      "es = es1 @ Tick t # es2" "wait_loop st to es1 m1 = (None, mk)"
      "checkStability st to t mk = (Some r, m')"
      by auto
    with c m1 have "Tick now # es = (Tick now # es1) @ Tick t # es2
        \<and> wait_loop st to (Tick now # es1) m = (None, mk)
        \<and> checkStability st to t mk = (Some r, m')"
      by simp
    then show ?thesis by blast
  qed
qed

lemma checkStability_stable:
  assumes "checkStability st to t m = (Some (WaitStable p), m')"
  shows "\<exists>s. session_active m \<and> stableString m = Some s \<and> 0 < stableStartTime m
     \<and> 400 \<le> t - stableStartTime m
     \<and> lastPitchResult m = Some (reading p) \<and> closestString (reading p) = Some s
     \<and> m' = m\<lparr>tunedStrings :=
                 (if inTune (reading p) then set_add s (tunedStrings m) else tunedStrings m)\<rparr>
     \<and> progressTuned p = rev (sort (tunedStrings m'))
     \<and> tunedCount p = length (tunedStrings m') \<and> totalStrings p = 6
     \<and> allInTune p = (length (tunedStrings m') = 6)"
  using assms
  by (auto simp: checkStability_def Let_def STABLE_DURATION_MS_def
      split: if_splits option.splits)

lemma wait_stable_run:
  assumes "waitForPitch to now es m = (Some (WaitStable p), m')"
  shows "\<exists>es1 t es2 mk s. es = es1 @ Tick t # es2
     \<and> wait_loop now to es1 (m\<lparr>stableString := None, stableStartTime := 0\<rparr>) = (None, mk)
     \<and> checkStability now to t mk = (Some (WaitStable p), m')
     \<and> closestString (reading p) = Some s
     \<and> current_run (readings es1 (m\<lparr>stableString := None, stableStartTime := 0\<rparr>)) s \<noteq> []
     \<and> 400 \<le> t - fst (hd (current_run
                   (readings es1 (m\<lparr>stableString := None, stableStartTime := 0\<rparr>)) s))"
proof -
  let ?m1 = "m\<lparr>stableString := None, stableStartTime := 0\<rparr>"
  from assms have w: "wait_loop now to (Tick now # es) ?m1 = (Some (WaitStable p), m')"
    by (auto simp: waitForPitch_def Let_def split: if_splits)
  have first: "checkStability now to now ?m1 = (None, ?m1)"
  proof (cases "fst (checkStability now to now ?m1)")
    case None
    then obtain x where x: "checkStability now to now ?m1 = (None, x)"
      by (cases "checkStability now to now ?m1") auto
    with checkStability_pending [OF x] show ?thesis by simp
  next
    case (Some r0)
    with w have "checkStability now to now ?m1 = (Some (WaitStable p), m')"
      by (auto split: prod.splits option.splits)
    from checkStability_stable [OF this] show ?thesis by simp
  qed
  with w have "wait_loop now to es ?m1 = (Some (WaitStable p), m')"
    by simp
  from wait_loop_resolves [OF this] obtain es1 t es2 mk where
    es: "es = es1 @ Tick t # es2" and pend: "wait_loop now to es1 ?m1 = (None, mk)"
    and res: "checkStability now to t mk = (Some (WaitStable p), m')"
    by blast
  have "tracker_inv ?m1 []"
    by (simp add: tracker_inv_def)
  from wait_loop_tracker [OF pend this] have inv: "tracker_inv mk (readings es1 ?m1)"
    by simp
  from checkStability_stable [OF res] obtain s where
    s: "stableString mk = Some s" "400 \<le> t - stableStartTime mk"
    "closestString (reading p) = Some s"
    by blast
  from inv s(1) have ne: "readings es1 ?m1 \<noteq> []" "snd (last (readings es1 ?m1)) = Some s"
    and st: "stableStartTime mk = fst (hd (current_run (readings es1 ?m1) s))"
    by (auto simp: tracker_inv_def split: if_splits)
  from current_run_last [OF ne] have "current_run (readings es1 ?m1) s \<noteq> []" .
  with es pend res s st show ?thesis
    by auto
qed

lemma set_add_set: "set (set_add x xs) = insert x (set xs)"
  by (auto simp: set_add_def)

lemma set_add_distinct: "distinct xs \<Longrightarrow> distinct (set_add x xs)"
  by (simp add: set_add_def)

lemma six_positions_card:
  assumes "distinct xs" and "set xs \<subseteq> {1, 2, 3, 4, 5, 6 :: int}"
  shows "length xs = 6 \<longleftrightarrow> set xs = {1, 2, 3, 4, 5, 6}"
proof
  assume "length xs = 6"
  with assms(1) have "card (set xs) = card {1, 2, 3, 4, 5, 6 :: int}"
    by (simp add: distinct_card)
  with assms(2) show "set xs = {1, 2, 3, 4, 5, 6}"
    by (intro card_subset_eq) simp_all
next
  assume "set xs = {1, 2, 3, 4, 5, 6}"
  then have "card (set xs) = 6"
    by simp
  with assms(1) show "length xs = 6"
    by (simp add: distinct_card)
qed

text \<open>The invariant holds initially and every operation keeps it.\<close>

lemma session_inv_new: "session_inv new_TuningSessionManager"
  by (simp add: session_inv_def new_TuningSessionManager_def)

lemma session_inv_cleanup: "session_inv (cleanup m)"
  by (simp add: session_inv_def cleanup_def Let_def split: option.splits)

lemma session_inv_stop: "session_inv m \<Longrightarrow> session_inv (snd (stopSession m))"
  by (simp add: stopSession_def session_inv_cleanup)

lemma session_inv_start: "session_inv m \<Longrightarrow> session_inv (snd (startSession tid now env m))"
proof -
  assume inv: "session_inv m"
  have "session_inv (m\<lparr>mic := a, pitchDetector := b, currentTuning := Some t, session := c\<rparr>)"
    if "getTuningById tid = Some t" for a b c t
    using inv getTuningById_in_catalog [OF that]
    by (simp add: session_inv_def)
  with inv show ?thesis
    by (auto simp: startSession_def session_inv_cleanup split: option.splits setup_outcome.splits)
qed

lemma createPitchResult_string:
  assumes "closestString (createPitchResult fo tun) = Some s"
  shows "s \<in> set (map stringNumber (strings tun))"
proof -
  from assms obtain f r where "fo = Some f" "findClosestString f tun = Some r"
    "cs_stringNumber r = s"
    by (auto simp: createPitchResult_def Let_def split: option.splits)
  with findClosestString_Some [of f tun r] show ?thesis
    by auto
qed

lemma session_inv_audio:
  assumes "session_inv m" and "onAudio now samples m = Inr m'"
  shows "session_inv m'"
proof (cases "pitchDetector m = None \<or> currentTuning m = None")
  case True
  with assms onAudio_idle [OF True, of now samples] show ?thesis by simp
next
  case False
  then obtain pd tun where pt: "pitchDetector m = Some pd" "currentTuning m = Some tun"
    by auto
  with assms(1) have "tun \<in> set TUNING_PRESETS"
    by (simp add: session_inv_def)
  with six_strings_catalog have six: "set (map stringNumber (strings tun)) = {1, 2, 3, 4, 5, 6}"
    by (auto simp: list_all_iff six_strings_def)
  from assms(2) pt obtain fo where
    l: "lastPitchResult m' = Some (createPitchResult fo tun)"
    and k: "tunedStrings m' = tunedStrings m" "currentTuning m' = currentTuning m"
    by (auto simp: onAudio_def Let_def split: sum.splits prod.splits if_splits)
  have "s \<in> {1, 2, 3, 4, 5, 6}" if "closestString (createPitchResult fo tun) = Some s" for s
    using createPitchResult_string [OF that] six by simp
  with assms(1) l k show ?thesis
    by (auto simp: session_inv_def split: option.splits)
qed

lemma session_inv_check:
  assumes "session_inv m" and "checkStability st to t m = (r, m')"
  shows "session_inv m'"
proof (cases r)
  case None
  with assms checkStability_pending [of st to t m m'] show ?thesis by simp
next
  case (Some w)
  show ?thesis
  proof (cases w)
    case (WaitStable p)
    with Some assms(2) have c: "checkStability st to t m = (Some (WaitStable p), m')"
      by simp
    from checkStability_stable [OF c] obtain s where
      s: "lastPitchResult m = Some (reading p)" "closestString (reading p) = Some s"
      "m' = m\<lparr>tunedStrings :=
                 (if inTune (reading p) then set_add s (tunedStrings m) else tunedStrings m)\<rparr>"
      by blast
    from assms(1) s(1,2) have "s \<in> {1, 2, 3, 4, 5, 6}"
      by (simp add: session_inv_def)
    with assms(1) show ?thesis
      unfolding s(3) by (auto simp: session_inv_def set_add_set set_add_distinct)
  next
    case (WaitError e)
    with Some assms show ?thesis
      by (auto simp: checkStability_def Let_def split: if_splits)
  next
    case (WaitTimeout q)
    with Some assms show ?thesis
      by (auto simp: checkStability_def Let_def split: if_splits)
  qed
qed

lemma session_inv_reset:
  "session_inv m \<Longrightarrow> session_inv (m\<lparr>stableString := x, stableStartTime := y\<rparr>)"
  by (simp add: session_inv_def)

lemma wait_loop_session_inv:
  "wait_loop st to es m = (r, mk) \<Longrightarrow> session_inv m \<Longrightarrow> session_inv mk"
proof (induction st to es m rule: wait_loop.induct)
  case (1 st to m)
  then show ?case by simp
next
  case (2 st to now samples es m)
  show ?case
  proof (cases "onAudio now samples m")
    case (Inl e)
    with "2.prems" "2.IH"(1) [OF Inl] show ?thesis by simp
  next
    case (Inr m1)
    with "2.prems"(2) have "session_inv m1"
      by (intro session_inv_audio [of m now samples m1])
    with "2.prems"(1) Inr "2.IH"(2) [OF Inr] show ?thesis by simp
  qed
next
  case (3 st to es m)
  from "3.prems" "3.IH" session_inv_stop [of m] show ?case by simp
next
  case (4 st to now es m)
  obtain r0 m1 where c: "checkStability st to now m = (r0, m1)"
    by (cases "checkStability st to now m") auto
  from session_inv_check [OF "4.prems"(2) c] have i: "session_inv m1" .
  show ?case
  proof (cases r0)
    case None
    with c "4.prems"(1) have "wait_loop st to es m1 = (r, mk)"
      by simp
    from "4.IH" [of None m1, OF _ _ this i] c None show ?thesis by simp
  next
    case (Some w)
    with c "4.prems"(1) i show ?thesis by simp
  qed
qed

text \<open>While checks stay pending and the session stays active, the tuned set is untouched.\<close>

lemma wait_loop_pending_active:
  "wait_loop st to es m = (None, mk) \<Longrightarrow> session_active mk
     \<Longrightarrow> tunedStrings mk = tunedStrings m \<and> session mk = session m"
proof (induction st to es m rule: wait_loop.induct)
  case (1 st to m)
  then show ?case by simp
next
  case (2 st to now samples es m)
  show ?case
  proof (cases "onAudio now samples m")
    case (Inl e)
    with "2.prems" "2.IH"(1) [OF Inl] show ?thesis by simp
  next
    case (Inr m1)
    have k: "tunedStrings m1 = tunedStrings m \<and> session m1 = session m"
    proof (cases "pitchDetector m = None \<or> currentTuning m = None")
      case True
      with onAudio_idle [OF True, of now samples] Inr show ?thesis by simp
    next
      case False
      with onAudio_heard [OF Inr] show ?thesis by auto
    qed
    from "2.prems" Inr "2.IH"(2) [OF Inr] have
      "tunedStrings mk = tunedStrings m1 \<and> session mk = session m1"
      by simp
    with k show ?thesis by simp
  qed
next
  case (3 st to es m)
  from "3.prems" "3.IH" have
    k: "tunedStrings mk = tunedStrings (snd (stopSession m))"
      "session mk = session (snd (stopSession m))"
    by simp_all
  show ?case
  proof (cases "session_active m")
    case True
    then have "session (snd (stopSession m)) = None"
      by (simp add: stopSession_def cleanup_def Let_def split: option.splits)
    with k(2) "3.prems"(2) show ?thesis
      by (simp add: session_active_def)
  next
    case False
    then have "snd (stopSession m) = m"
      by (simp add: stopSession_def)
    with k show ?thesis by simp
  qed
next
  case (4 st to now es m)
  from "4.prems"(1) obtain m1 where c: "checkStability st to now m = (None, m1)"
    and w: "wait_loop st to es m1 = (None, mk)"
    by (auto split: prod.splits option.splits)
  from checkStability_pending [OF c] have "m1 = m" .
  with "4.IH" [of None m1] c w "4.prems"(2) show ?case by simp
qed

lemma stable_progress:
  assumes inv: "session_inv m"
    and c: "checkStability st to t m = (Some (WaitStable p), m')"
  shows "\<exists>s. stableString m = Some s \<and> 0 < stableStartTime m
         \<and> 400 \<le> t - stableStartTime m
         \<and> lastPitchResult m = Some (reading p) \<and> closestString (reading p) = Some s
         \<and> m' = m\<lparr>tunedStrings :=
                 (if inTune (reading p) then set_add s (tunedStrings m) else tunedStrings m)\<rparr>
         \<and> set (tunedStrings m') =
             (if inTune (reading p) then insert s (set (tunedStrings m))
              else set (tunedStrings m))
         \<and> session_inv m'
         \<and> progressTuned p = rev (sort (tunedStrings m'))
         \<and> sorted (rev (progressTuned p)) \<and> distinct (progressTuned p)
         \<and> set (progressTuned p) = set (tunedStrings m')
         \<and> tunedCount p = card (set (tunedStrings m')) \<and> totalStrings p = 6
         \<and> (allInTune p \<longleftrightarrow> set (tunedStrings m') = {1, 2, 3, 4, 5, 6})"
proof -
  from checkStability_stable [OF c] obtain s where
    s: "stableString m = Some s" "0 < stableStartTime m" "400 \<le> t - stableStartTime m"
    "lastPitchResult m = Some (reading p)" "closestString (reading p) = Some s"
    "m' = m\<lparr>tunedStrings :=
                 (if inTune (reading p) then set_add s (tunedStrings m) else tunedStrings m)\<rparr>"
    "progressTuned p = rev (sort (tunedStrings m'))"
    "tunedCount p = length (tunedStrings m')" "totalStrings p = 6"
    "allInTune p = (length (tunedStrings m') = 6)"
    by blast
  have inv': "session_inv m'"
    by (rule session_inv_check [OF inv c])
  then have d: "distinct (tunedStrings m')" "set (tunedStrings m') \<subseteq> {1, 2, 3, 4, 5, 6}"
    by (simp_all add: session_inv_def)
  have tset: "set (tunedStrings m') =
      (if inTune (reading p) then insert s (set (tunedStrings m)) else set (tunedStrings m))"
    by (subst s(6)) (simp add: set_add_set)
  have srt: "sorted (rev (progressTuned p))" "distinct (progressTuned p)"
    "set (progressTuned p) = set (tunedStrings m')"
    using d(1) by (simp_all add: s(7))
  have cnt: "tunedCount p = card (set (tunedStrings m'))"
    using d(1) by (simp add: s(8) distinct_card)
  have all: "allInTune p \<longleftrightarrow> set (tunedStrings m') = {1, 2, 3, 4, 5, 6}"
    using six_positions_card [OF d] by (simp add: s(10))
  from s(1-7,9) tset inv' srt cnt all show ?thesis
    by (intro exI [of _ s] conjI)
qed

lemma whole_call_progress:
  assumes inv: "session_inv m"
    and w: "waitForPitch to now es m = (Some (WaitStable p), m')"
  shows "\<exists>es1 t es2 s. es = es1 @ Tick t # es2 \<and> closestString (reading p) = Some s
         \<and> current_run (readings es1 (m\<lparr>stableString := None, stableStartTime := 0\<rparr>)) s
             \<noteq> []
         \<and> 400 \<le> t - fst (hd (current_run
                (readings es1 (m\<lparr>stableString := None, stableStartTime := 0\<rparr>)) s))
         \<and> lastPitchResult m' = Some (reading p) \<and> stableString m' = Some s
         \<and> tunedStrings m' =
             (if inTune (reading p) then set_add s (tunedStrings m) else tunedStrings m)
         \<and> set (tunedStrings m') =
             (if inTune (reading p) then insert s (set (tunedStrings m))
              else set (tunedStrings m))
         \<and> session_inv m'
         \<and> progressTuned p = rev (sort (tunedStrings m'))
         \<and> sorted (rev (progressTuned p)) \<and> distinct (progressTuned p)
         \<and> set (progressTuned p) = set (tunedStrings m')
         \<and> tunedCount p = card (set (tunedStrings m')) \<and> totalStrings p = 6
         \<and> (allInTune p \<longleftrightarrow> set (tunedStrings m') = {1, 2, 3, 4, 5, 6})"
proof -
  let ?m1 = "m\<lparr>stableString := None, stableStartTime := 0\<rparr>"
  from wait_stable_run [OF w] obtain es1 t es2 mk s where
    es: "es = es1 @ Tick t # es2" and pend: "wait_loop now to es1 ?m1 = (None, mk)"
    and res: "checkStability now to t mk = (Some (WaitStable p), m')"
    and s: "closestString (reading p) = Some s"
    and run: "current_run (readings es1 ?m1) s \<noteq> []"
      "400 \<le> t - fst (hd (current_run (readings es1 ?m1) s))"
    by blast
  have "session_inv ?m1"
    by (rule session_inv_reset [OF inv])
  from wait_loop_session_inv [OF pend this] have invk: "session_inv mk" .
  from checkStability_stable [OF res] have "session_active mk"
    by blast
  from wait_loop_pending_active [OF pend this] have tk: "tunedStrings mk = tunedStrings m"
    by simp
  from stable_progress [OF invk res] obtain s' where
    k: "stableString mk = Some s'" "lastPitchResult mk = Some (reading p)"
    "closestString (reading p) = Some s'"
    "m' = mk\<lparr>tunedStrings :=
                 (if inTune (reading p) then set_add s' (tunedStrings mk) else tunedStrings mk)\<rparr>"
    "set (tunedStrings m') =
             (if inTune (reading p) then insert s' (set (tunedStrings mk))
              else set (tunedStrings mk))"
    "session_inv m'"
    "progressTuned p = rev (sort (tunedStrings m'))"
    "sorted (rev (progressTuned p))" "distinct (progressTuned p)"
    "set (progressTuned p) = set (tunedStrings m')"
    "tunedCount p = card (set (tunedStrings m'))" "totalStrings p = 6"
    "allInTune p \<longleftrightarrow> set (tunedStrings m') = {1, 2, 3, 4, 5, 6}"
    by blast
  from k(3) s have eq: "s' = s"
    by simp
  have l1: "lastPitchResult m' = Some (reading p)"
    by (subst k(4)) (simp add: k(2))
  have l2: "stableString m' = Some s"
    by (subst k(4)) (simp add: k(1) eq)
  have tm: "tunedStrings m' =
      (if inTune (reading p) then set_add s (tunedStrings m) else tunedStrings m)"
    by (subst k(4)) (simp add: tk eq)
  have ts: "set (tunedStrings m') =
      (if inTune (reading p) then insert s (set (tunedStrings m)) else set (tunedStrings m))"
    using k(5) by (simp only: tk eq)
  from es s run l1 l2 tm ts k(6-13) show ?thesis
    by (intro exI [of _ es1] exI [of _ t] exI [of _ es2] exI [of _ s] conjI)
qed

text \<open>
  C4. In a manager that satisfies the invariant, a check resolves with a stable reading
  only when the tracker holds a string \<open>s\<close> since a positive start time at least 400 ms
  before the check and the cached pitch result, which is the reading returned, matched the
  same string \<open>s\<close>. The manager changes in the set of tuned strings only: \<open>s\<close> is
  added when the reading is in tune. The result lists the tuned positions in descending
  order without repetition, counts them, gives the total 6, and \<open>allInTune\<close> is true
  exactly when the tuned positions are 1 to 6.

  The same holds of a whole call of \<open>waitForPitch\<close> that resolves with a stable reading
  at a check at clock \<open>t\<close>. The readings cached since the call end in a non-empty run of
  readings that all matched \<open>s\<close>, and the first reading of that run is at least 400 ms
  older than \<open>t\<close>; the manager returned has the reading as its cached result and \<open>s\<close>
  as its tracked string. Its tuned set is the tuned set at the call with \<open>s\<close> added when
  the reading is in tune, and the progress fields of the returned result describe that set:
  the positions in descending order, their number, the total 6, and \<open>allInTune\<close> true
  exactly when the positions are 1 to 6.
\<close>

theorem waitForPitch_stable_reading:
  assumes "session_inv m"
  shows
  "(\<forall>p m'. checkStability st to t m = (Some (WaitStable p), m') \<longrightarrow>
      (\<exists>s. stableString m = Some s \<and> 0 < stableStartTime m
         \<and> 400 \<le> t - stableStartTime m
         \<and> lastPitchResult m = Some (reading p) \<and> closestString (reading p) = Some s
         \<and> m' = m\<lparr>tunedStrings :=
                 (if inTune (reading p) then set_add s (tunedStrings m) else tunedStrings m)\<rparr>
         \<and> set (tunedStrings m') =
             (if inTune (reading p) then insert s (set (tunedStrings m))
              else set (tunedStrings m))
         \<and> session_inv m'
         \<and> progressTuned p = rev (sort (tunedStrings m'))
         \<and> sorted (rev (progressTuned p)) \<and> distinct (progressTuned p)
         \<and> set (progressTuned p) = set (tunedStrings m')
         \<and> tunedCount p = card (set (tunedStrings m')) \<and> totalStrings p = 6
         \<and> (allInTune p \<longleftrightarrow> set (tunedStrings m') = {1, 2, 3, 4, 5, 6})))
   \<and> (\<forall>p m'. waitForPitch to now es m = (Some (WaitStable p), m') \<longrightarrow>
      (\<exists>es1 t es2 s. es = es1 @ Tick t # es2 \<and> closestString (reading p) = Some s
         \<and> current_run (readings es1 (m\<lparr>stableString := None, stableStartTime := 0\<rparr>)) s
             \<noteq> []
         \<and> 400 \<le> t - fst (hd (current_run
                (readings es1 (m\<lparr>stableString := None, stableStartTime := 0\<rparr>)) s))
         \<and> lastPitchResult m' = Some (reading p) \<and> stableString m' = Some s
         \<and> tunedStrings m' =
             (if inTune (reading p) then set_add s (tunedStrings m) else tunedStrings m)
         \<and> set (tunedStrings m') =
             (if inTune (reading p) then insert s (set (tunedStrings m))
              else set (tunedStrings m))
         \<and> session_inv m'
         \<and> progressTuned p = rev (sort (tunedStrings m'))
         \<and> sorted (rev (progressTuned p)) \<and> distinct (progressTuned p)
         \<and> set (progressTuned p) = set (tunedStrings m')
         \<and> tunedCount p = card (set (tunedStrings m')) \<and> totalStrings p = 6
         \<and> (allInTune p \<longleftrightarrow> set (tunedStrings m') = {1, 2, 3, 4, 5, 6})))"
proof (intro conjI allI impI)
  fix p m'
  assume "checkStability st to t m = (Some (WaitStable p), m')"
  from stable_progress [OF assms this]
  show "\<exists>s. stableString m = Some s \<and> 0 < stableStartTime m
         \<and> 400 \<le> t - stableStartTime m
         \<and> lastPitchResult m = Some (reading p) \<and> closestString (reading p) = Some s
         \<and> m' = m\<lparr>tunedStrings :=
                 (if inTune (reading p) then set_add s (tunedStrings m) else tunedStrings m)\<rparr>
         \<and> set (tunedStrings m') =
             (if inTune (reading p) then insert s (set (tunedStrings m))
              else set (tunedStrings m))
         \<and> session_inv m'
         \<and> progressTuned p = rev (sort (tunedStrings m'))
         \<and> sorted (rev (progressTuned p)) \<and> distinct (progressTuned p)
         \<and> set (progressTuned p) = set (tunedStrings m')
         \<and> tunedCount p = card (set (tunedStrings m')) \<and> totalStrings p = 6
         \<and> (allInTune p \<longleftrightarrow> set (tunedStrings m') = {1, 2, 3, 4, 5, 6})" .
next
  fix p m'
  assume "waitForPitch to now es m = (Some (WaitStable p), m')"
  from whole_call_progress [OF assms this]
  show "\<exists>es1 t es2 s. es = es1 @ Tick t # es2 \<and> closestString (reading p) = Some s
         \<and> current_run (readings es1 (m\<lparr>stableString := None, stableStartTime := 0\<rparr>)) s
             \<noteq> []
         \<and> 400 \<le> t - fst (hd (current_run
                (readings es1 (m\<lparr>stableString := None, stableStartTime := 0\<rparr>)) s))
         \<and> lastPitchResult m' = Some (reading p) \<and> stableString m' = Some s
         \<and> tunedStrings m' =
             (if inTune (reading p) then set_add s (tunedStrings m) else tunedStrings m)
         \<and> set (tunedStrings m') =
             (if inTune (reading p) then insert s (set (tunedStrings m))
              else set (tunedStrings m))
         \<and> session_inv m'
         \<and> progressTuned p = rev (sort (tunedStrings m'))
         \<and> sorted (rev (progressTuned p)) \<and> distinct (progressTuned p)
         \<and> set (progressTuned p) = set (tunedStrings m')
         \<and> tunedCount p = card (set (tunedStrings m')) \<and> totalStrings p = 6
         \<and> (allInTune p \<longleftrightarrow> set (tunedStrings m') = {1, 2, 3, 4, 5, 6})" .
qed

text \<open>
  C10. On an active session the result of \<open>waitForPitch\<close> does not depend on what the
  tracker held before the call. With no event after the call, the check inside the call
  leaves the tracker reset (no string, start time 0) and the promise pending or timed out,
  never resolved with a reading. Whenever a call resolves with a stable reading at a
  check at clock \<open>t\<close>, a reading of the returned string was cached from a block of audio
  delivered after the call began, at least 400 ms before \<open>t\<close>.
\<close>

theorem waitForPitch_resets_tracker:
  assumes "session_active m"
  shows "waitForPitch to now es (m\<lparr>stableString := x, stableStartTime := y\<rparr>)
           = waitForPitch to now es m
   \<and> (\<exists>r. waitForPitch to now [] m
             = (r, m\<lparr>stableString := None, stableStartTime := 0\<rparr>)
          \<and> (r = None \<or> (\<exists>q. r = Some (WaitTimeout q))))
   \<and> (\<forall>p m'. waitForPitch to now es m = (Some (WaitStable p), m') \<longrightarrow>
        (\<exists>es1 t es2 t0. es = es1 @ Tick t # es2
           \<and> (t0, closestString (reading p))
                \<in> set (readings es1 (m\<lparr>stableString := None, stableStartTime := 0\<rparr>))
           \<and> 400 \<le> t - t0))"
proof (intro conjI allI impI)
  from assms have "session_active (m\<lparr>stableString := x, stableStartTime := y\<rparr>)"
    by (simp add: session_active_def)
  with assms show "waitForPitch to now es (m\<lparr>stableString := x, stableStartTime := y\<rparr>)
           = waitForPitch to now es m"
    by (simp add: waitForPitch_def)
next
  let ?m1 = "m\<lparr>stableString := None, stableStartTime := 0\<rparr>"
  from assms have a: "session_active ?m1"
    by (simp add: session_active_def)
  show "\<exists>r. waitForPitch to now [] m = (r, ?m1)
          \<and> (r = None \<or> (\<exists>q. r = Some (WaitTimeout q)))"
  proof (cases "0 > to")
    case True
    with assms show ?thesis
      by (simp add: waitForPitch_def checkStability_def)
  next
    case False
    with assms a show ?thesis
      by (simp add: waitForPitch_def checkStability_def)
  qed
next
  fix p m'
  let ?rs = "readings"
  assume "waitForPitch to now es m = (Some (WaitStable p), m')"
  from wait_stable_run [OF this] obtain es1 t es2 s where
    e: "es = es1 @ Tick t # es2" "closestString (reading p) = Some s"
    and ne: "current_run (readings es1 (m\<lparr>stableString := None, stableStartTime := 0\<rparr>)) s
             \<noteq> []"
    and d: "400 \<le> t - fst (hd (current_run
                (readings es1 (m\<lparr>stableString := None, stableStartTime := 0\<rparr>)) s))"
    by blast
  let ?run = "current_run (readings es1 (m\<lparr>stableString := None, stableStartTime := 0\<rparr>)) s"
  from ne have h: "hd ?run \<in> set ?run"
    by simp
  then have "snd (hd ?run) = Some s"
    by (rule current_run_all)
  moreover from h current_run_subset
  have "hd ?run \<in> set (readings es1 (m\<lparr>stableString := None, stableStartTime := 0\<rparr>))"
    by blast
  ultimately have "(fst (hd ?run), closestString (reading p))
      \<in> set (readings es1 (m\<lparr>stableString := None, stableStartTime := 0\<rparr>))"
    using e(2) by (metis prod.collapse)
  with e(1) d show "\<exists>es1 t es2 t0. es = es1 @ Tick t # es2
           \<and> (t0, closestString (reading p))
                \<in> set (readings es1 (m\<lparr>stableString := None, stableStartTime := 0\<rparr>))
           \<and> 400 \<le> t - t0"
    by blast
qed

lemma heardA_again: "process heardA (replicate 4096 (1 / 2)) = Inr (Some 110, heardA)"
proof -
  have h: "heardA = listening\<lparr>accumulatedSamples := replicate 2048 (1 / 2),
                              lastFrequency := Some 110\<rparr>"
    using listening_hears_A(1)
    by (simp add: process_window [where detect = "demo_detector 44100"] listening_fields
        slice_last_replicate calculateRMS_replicate demo_detector_def
        GUITAR_FREQ_MIN_def GUITAR_FREQ_MAX_def)
  have w: "slice_last 4096 (replicate 2048 (1 / 2) @ replicate 4096 (1 / 2 :: real))
      = replicate 4096 (1 / 2)"
    by (simp add: slice_last_def)
  have o: "slice_last 2048 (replicate 2048 (1 / 2) @ replicate 4096 (1 / 2 :: real))
      = replicate 2048 (1 / 2)"
    by (simp add: slice_last_def replicate_add [symmetric])
  have "process heardA (replicate 4096 (1 / 2)) =
      Inr (Some 110, heardA\<lparr>accumulatedSamples := replicate 2048 (1 / 2),
                              lastFrequency := Some 110\<rparr>)"
    by (simp add: process_window [where detect = "demo_detector 44100"] listening_hears_A
        w o calculateRMS_replicate demo_detector_def GUITAR_FREQ_MIN_def GUITAR_FREQ_MAX_def)
  also have "heardA\<lparr>accumulatedSamples := replicate 2048 (1 / 2), lastFrequency := Some 110\<rparr>
      = heardA"
    by (subst (1 2) h) simp
  finally show ?thesis .
qed

lemma onAudio_A:
  assumes "pitchDetector m = Some heardA" and "currentTuning m = Some standardTuning"
  shows "onAudio t (replicate 4096 (1 / 2)) m =
     Inr (m\<lparr>lastPitchResult := Some (createPitchResult (Some 110) standardTuning),
            stableString := Some 5,
            stableStartTime := (if stableString m = Some 5 then stableStartTime m else t)\<rparr>)"
  using assms
  by (cases m) (simp add: onAudio_def heardA_again Let_def A2_reading)

lemma played_fields:
  "pitchDetector played = Some heardA" "currentTuning played = Some standardTuning"
  "lastPitchResult played = Some (createPitchResult (Some 110) standardTuning)"
  "stableString played = Some 5" "stableStartTime played = 2000" "tunedStrings played = []"
  by (simp_all add: played_eq started_eq new_TuningSessionManager_def)

lemma session_inv_played: "session_inv played"
  using getTuningById_in_catalog [OF standardTuning_found]
  by (simp add: session_inv_def played_fields A2_reading)

lemma holding_A_resolves:
  "waitForPitch 30000 3000 holding_A played =
     (Some (WaitStable \<lparr>reading = createPitchResult (Some 110) standardTuning,
                        progressTuned = [5], tunedCount = 1, totalStrings = 6,
                        allInTune = False\<rparr>),
      played\<lparr>lastPitchResult := Some (createPitchResult (Some 110) standardTuning),
             stableString := Some 5, stableStartTime := 3010, tunedStrings := [5]\<rparr>)"
proof -
  let ?m1 = "played\<lparr>stableString := None, stableStartTime := 0\<rparr>"
  let ?m2 = "played\<lparr>lastPitchResult := Some (createPitchResult (Some 110) standardTuning),
                    stableString := Some 5, stableStartTime := 3010\<rparr>"
  have a1: "session_active ?m1" and a2: "session_active ?m2"
    using played_active by (simp_all add: session_active_def)
  have t0: "checkStability 3000 30000 3000 ?m1 = (None, ?m1)"
    using a1 by (simp add: checkStability_def)
  have au1: "onAudio 3010 (replicate 4096 (1 / 2)) ?m1 = Inr ?m2"
    by (simp add: onAudio_A played_fields)
  have t1: "checkStability 3000 30000 3050 ?m2 = (None, ?m2)"
    using a2 by (simp add: checkStability_def STABLE_DURATION_MS_def)
  have au2: "onAudio 3100 (replicate 4096 (1 / 2)) ?m2 = Inr ?m2"
    by (simp add: onAudio_A played_fields)
  have t2: "checkStability 3000 30000 3450 ?m2 =
     (Some (WaitStable \<lparr>reading = createPitchResult (Some 110) standardTuning,
                        progressTuned = [5], tunedCount = 1, totalStrings = 6,
                        allInTune = False\<rparr>),
      ?m2\<lparr>tunedStrings := [5]\<rparr>)"
    using a2
    by (simp add: checkStability_def STABLE_DURATION_MS_def A2_reading played_fields
        set_add_def Let_def)
  show ?thesis
    using played_active
    by (simp add: waitForPitch_def holding_A_def t0 au1 t1 au2 t2)
qed

lemma almost_tuned_resolves:
  "checkStability 0 30000 2400 almost_tuned =
     (Some (WaitStable \<lparr>reading = createPitchResult (Some 110) standardTuning,
                        progressTuned = [6, 5, 4, 3, 2, 1], tunedCount = 6, totalStrings = 6,
                        allInTune = True\<rparr>),
      almost_tuned\<lparr>tunedStrings := [6, 4, 3, 2, 1, 5]\<rparr>)"
proof -
  have "session_active almost_tuned"
    using played_active by (simp add: almost_tuned_def session_active_def)
  then show ?thesis
    by (simp add: checkStability_def STABLE_DURATION_MS_def A2_reading played_fields
        almost_tuned_def set_add_def Let_def)
qed

lemma session_inv_almost_tuned: "session_inv almost_tuned"
  using session_inv_played by (simp add: session_inv_def almost_tuned_def)

lemma almost_tuned_fields:
  "pitchDetector almost_tuned = Some heardA" "currentTuning almost_tuned = Some standardTuning"
  "tunedStrings almost_tuned = [6, 4, 3, 2, 1]"
  by (simp_all add: almost_tuned_def played_fields)

lemma almost_tuned_holding_A:
  "waitForPitch 30000 3000 holding_A almost_tuned =
     (Some (WaitStable \<lparr>reading = createPitchResult (Some 110) standardTuning,
                        progressTuned = [6, 5, 4, 3, 2, 1], tunedCount = 6, totalStrings = 6,
                        allInTune = True\<rparr>),
      almost_tuned\<lparr>lastPitchResult := Some (createPitchResult (Some 110) standardTuning),
                   stableString := Some 5, stableStartTime := 3010,
                   tunedStrings := [6, 4, 3, 2, 1, 5]\<rparr>)"
proof -
  let ?m1 = "almost_tuned\<lparr>stableString := None, stableStartTime := 0\<rparr>"
  let ?m2 = "almost_tuned\<lparr>lastPitchResult := Some (createPitchResult (Some 110) standardTuning),
                          stableString := Some 5, stableStartTime := 3010\<rparr>"
  have a0: "session_active almost_tuned"
    using played_active by (simp add: almost_tuned_def session_active_def)
  then have a1: "session_active ?m1" and a2: "session_active ?m2"
    by (simp_all add: session_active_def)
  have t0: "checkStability 3000 30000 3000 ?m1 = (None, ?m1)"
    using a1 by (simp add: checkStability_def)
  have au1: "onAudio 3010 (replicate 4096 (1 / 2)) ?m1 = Inr ?m2"
    by (simp add: onAudio_A almost_tuned_fields)
  have t1: "checkStability 3000 30000 3050 ?m2 = (None, ?m2)"
    using a2 by (simp add: checkStability_def STABLE_DURATION_MS_def)
  have au2: "onAudio 3100 (replicate 4096 (1 / 2)) ?m2 = Inr ?m2"
    by (simp add: onAudio_A almost_tuned_fields)
  have t2: "checkStability 3000 30000 3450 ?m2 =
     (Some (WaitStable \<lparr>reading = createPitchResult (Some 110) standardTuning,
                        progressTuned = [6, 5, 4, 3, 2, 1], tunedCount = 6, totalStrings = 6,
                        allInTune = True\<rparr>),
      ?m2\<lparr>tunedStrings := [6, 4, 3, 2, 1, 5]\<rparr>)"
    using a2
    by (simp add: checkStability_def STABLE_DURATION_MS_def A2_reading almost_tuned_fields
        set_add_def Let_def)
  show ?thesis
    using a0
    by (simp add: waitForPitch_def holding_A_def t0 au1 t1 au2 t2)
qed

theorem waitForPitch_stable_reading_witness:
  "session_inv played \<and> session_inv almost_tuned
   \<and> (\<exists>p m'. checkStability 0 30000 2400 almost_tuned = (Some (WaitStable p), m')
         \<and> stableString almost_tuned = Some 5 \<and> 400 \<le> 2400 - stableStartTime almost_tuned
         \<and> inTune (reading p) \<and> tunedStrings m' = [6, 4, 3, 2, 1, 5]
         \<and> progressTuned p = [6, 5, 4, 3, 2, 1] \<and> tunedCount p = 6 \<and> totalStrings p = 6
         \<and> set (tunedStrings m') = {1, 2, 3, 4, 5, 6} \<and> allInTune p)
   \<and> (\<exists>p m' es1 t es2.
         waitForPitch 30000 3000 holding_A played = (Some (WaitStable p), m')
         \<and> tunedStrings played = [] \<and> inTune (reading p)
         \<and> tunedStrings m' = [5] \<and> progressTuned p = [5] \<and> tunedCount p = 1
         \<and> totalStrings p = 6 \<and> allInTune p = False
         \<and> holding_A = es1 @ Tick t # es2
         \<and> current_run
              (readings es1 (played\<lparr>stableString := None, stableStartTime := 0\<rparr>)) 5 \<noteq> []
         \<and> 400 \<le> t - fst (hd (current_run
              (readings es1 (played\<lparr>stableString := None, stableStartTime := 0\<rparr>)) 5)))
   \<and> (\<exists>p m'.
         waitForPitch 30000 3000 holding_A almost_tuned = (Some (WaitStable p), m')
         \<and> tunedStrings almost_tuned = [6, 4, 3, 2, 1] \<and> inTune (reading p)
         \<and> closestString (reading p) = Some 5
         \<and> tunedStrings m' = [6, 4, 3, 2, 1, 5]
         \<and> progressTuned p = [6, 5, 4, 3, 2, 1] \<and> tunedCount p = 6 \<and> totalStrings p = 6
         \<and> set (tunedStrings m') = {1, 2, 3, 4, 5, 6} \<and> allInTune p)"
proof -
  note A = waitForPitch_stable_reading [OF session_inv_almost_tuned,
      where st = 0 and to = 30000 and t = 2400]
  note B = waitForPitch_stable_reading [OF session_inv_played,
      where to = 30000 and now = 3000 and es = holding_A]
  note C = waitForPitch_stable_reading [OF session_inv_almost_tuned,
      where to = 30000 and now = 3000 and es = holding_A]
  let ?r = "createPitchResult (Some 110) standardTuning"
  let ?p = "\<lparr>reading = ?r, progressTuned = [6, 5, 4, 3, 2, 1], tunedCount = 6,
             totalStrings = 6, allInTune = True\<rparr>"
  let ?m' = "almost_tuned\<lparr>tunedStrings := [6, 4, 3, 2, 1, 5]\<rparr>"
  have s: "set [6, 4, 3, 2, 1, 5] = {1, 2, 3, 4, 5, 6 :: int}"
    by auto
  from A almost_tuned_resolves have "allInTune ?p \<longleftrightarrow> set (tunedStrings ?m') = {1, 2, 3, 4, 5, 6}"
    by blast
  with s have all: "allInTune ?p"
    by simp
  have f: "stableString almost_tuned = Some 5" "400 \<le> 2400 - stableStartTime almost_tuned"
    by (simp_all add: almost_tuned_def played_fields)
  have 1: "\<exists>p m'. checkStability 0 30000 2400 almost_tuned = (Some (WaitStable p), m')
         \<and> stableString almost_tuned = Some 5 \<and> 400 \<le> 2400 - stableStartTime almost_tuned
         \<and> inTune (reading p) \<and> tunedStrings m' = [6, 4, 3, 2, 1, 5]
         \<and> progressTuned p = [6, 5, 4, 3, 2, 1] \<and> tunedCount p = 6 \<and> totalStrings p = 6
         \<and> set (tunedStrings m') = {1, 2, 3, 4, 5, 6} \<and> allInTune p"
    using almost_tuned_resolves f s all
    by (intro exI [of _ ?p] exI [of _ ?m']) (simp add: A2_reading)
  let ?q = "\<lparr>reading = ?r, progressTuned = [5], tunedCount = 1, totalStrings = 6,
             allInTune = False\<rparr>"
  let ?n' = "played\<lparr>lastPitchResult := Some ?r,
             stableString := Some 5, stableStartTime := 3010, tunedStrings := [5]\<rparr>"
  from B holding_A_resolves obtain es1 t es2 s where
    r: "holding_A = es1 @ Tick t # es2" "closestString (reading ?q) = Some s"
    "current_run (readings es1 (played\<lparr>stableString := None, stableStartTime := 0\<rparr>)) s \<noteq> []"
    "400 \<le> t - fst (hd (current_run
        (readings es1 (played\<lparr>stableString := None, stableStartTime := 0\<rparr>)) s))"
    by blast
  from r(2) have "s = 5"
    by (simp add: A2_reading)
  with r holding_A_resolves have 2: "\<exists>p m' es1 t es2.
         waitForPitch 30000 3000 holding_A played = (Some (WaitStable p), m')
         \<and> tunedStrings played = [] \<and> inTune (reading p)
         \<and> tunedStrings m' = [5] \<and> progressTuned p = [5] \<and> tunedCount p = 1
         \<and> totalStrings p = 6 \<and> allInTune p = False
         \<and> holding_A = es1 @ Tick t # es2
         \<and> current_run
              (readings es1 (played\<lparr>stableString := None, stableStartTime := 0\<rparr>)) 5 \<noteq> []
         \<and> 400 \<le> t - fst (hd (current_run
              (readings es1 (played\<lparr>stableString := None, stableStartTime := 0\<rparr>)) 5))"
    by (intro exI [of _ ?q] exI [of _ ?n'] exI [of _ es1] exI [of _ t] exI [of _ es2])
      (simp add: A2_reading played_fields)
  let ?k' = "almost_tuned\<lparr>lastPitchResult := Some ?r,
             stableString := Some 5, stableStartTime := 3010,
             tunedStrings := [6, 4, 3, 2, 1, 5]\<rparr>"
  from C almost_tuned_holding_A
  have "allInTune ?p \<longleftrightarrow> set (tunedStrings ?k') = {1, 2, 3, 4, 5, 6}"
    by blast
  with s have all': "allInTune ?p"
    by simp
  have 3: "\<exists>p m'.
         waitForPitch 30000 3000 holding_A almost_tuned = (Some (WaitStable p), m')
         \<and> tunedStrings almost_tuned = [6, 4, 3, 2, 1] \<and> inTune (reading p)
         \<and> closestString (reading p) = Some 5
         \<and> tunedStrings m' = [6, 4, 3, 2, 1, 5]
         \<and> progressTuned p = [6, 5, 4, 3, 2, 1] \<and> tunedCount p = 6 \<and> totalStrings p = 6
         \<and> set (tunedStrings m') = {1, 2, 3, 4, 5, 6} \<and> allInTune p"
    using almost_tuned_holding_A s all'
    by (intro exI [of _ ?p] exI [of _ ?k']) (simp add: A2_reading almost_tuned_fields)
  from session_inv_played session_inv_almost_tuned 1 2 3 show ?thesis
    by (intro conjI)
qed

theorem waitForPitch_resets_tracker_witness:
  "session_active played \<and> stableString played = Some 5 \<and> stableStartTime played = 2000
   \<and> (\<exists>p m'. checkStability 3000 30000 3000 played = (Some (WaitStable p), m'))
   \<and> waitForPitch 30000 3000 [] played
        = (None, played\<lparr>stableString := None, stableStartTime := 0\<rparr>)
   \<and> waitForPitch 30000 3000 holding_A (played\<lparr>stableString := Some 1, stableStartTime := 1\<rparr>)
        = waitForPitch 30000 3000 holding_A played
   \<and> (\<exists>p m' es1 t es2 t0.
         waitForPitch 30000 3000 holding_A played = (Some (WaitStable p), m')
         \<and> holding_A = es1 @ Tick t # es2
         \<and> (t0, Some 5)
              \<in> set (readings es1 (played\<lparr>stableString := None, stableStartTime := 0\<rparr>))
         \<and> 400 \<le> t - t0)"
proof -
  note T = waitForPitch_resets_tracker [OF played_active, where to = 30000 and now = 3000
      and es = holding_A]
  have before: "\<exists>p m'. checkStability 3000 30000 3000 played = (Some (WaitStable p), m')"
    using played_active
    by (simp add: checkStability_def STABLE_DURATION_MS_def A2_reading played_fields Let_def)
  from T obtain r where r: "waitForPitch 30000 3000 [] played
        = (r, played\<lparr>stableString := None, stableStartTime := 0\<rparr>)"
    "r = None \<or> (\<exists>q. r = Some (WaitTimeout q))"
    by blast
  have "fst (waitForPitch 30000 3000 [] played) = None"
    using played_active
    by (simp add: waitForPitch_def checkStability_def session_active_def)
  with r have empty: "waitForPitch 30000 3000 [] played
        = (None, played\<lparr>stableString := None, stableStartTime := 0\<rparr>)"
    by simp
  from T have indep: "waitForPitch 30000 3000 holding_A
        (played\<lparr>stableString := Some 1, stableStartTime := 1\<rparr>)
      = waitForPitch 30000 3000 holding_A played"
    by blast
  let ?q = "\<lparr>reading = createPitchResult (Some 110) standardTuning,
             progressTuned = [5], tunedCount = 1, totalStrings = 6, allInTune = False\<rparr>"
  from T holding_A_resolves obtain es1 t es2 t0 where
    "holding_A = es1 @ Tick t # es2"
    "(t0, closestString (reading ?q))
       \<in> set (readings es1 (played\<lparr>stableString := None, stableStartTime := 0\<rparr>))"
    "400 \<le> t - t0"
    by blast
  with holding_A_resolves have run: "\<exists>p m' es1 t es2 t0.
         waitForPitch 30000 3000 holding_A played = (Some (WaitStable p), m')
         \<and> holding_A = es1 @ Tick t # es2
         \<and> (t0, Some 5)
              \<in> set (readings es1 (played\<lparr>stableString := None, stableStartTime := 0\<rparr>))
         \<and> 400 \<le> t - t0"
    by (simp add: A2_reading) blast
  from played_active played_fields(4,5) before empty indep run show ?thesis
    by (intro conjI)
qed

end
